theory Spec2Isabelle
  imports Main "HOL-Library.Word"
begin

unbundle bit_operations_syntax

section \<open>The response codec of hessian2 (response.go)\<close>

text \<open>
  Go's \<open>int\<close> is taken to be 64 bits wide (a 64-bit platform): arithmetic wraps, and
  \<open>sint\<close> reads the two's complement value. A \<open>byte\<close> is an 8-bit word. Go strings are
  byte sequences, as \<open>string\<close> is here.
\<close>

type_synonym goint = "64 word"
type_synonym byte = "8 word"

subsection \<open>Library functions used by the version resolver\<close>

text \<open>
  \<open>strings.Split(s, ".")\<close>: all substrings between the dots, in order; a string without
  a dot is returned whole, the empty string gives one empty component.
\<close>

fun Split :: "string \<Rightarrow> string list" where
  "Split [] = [[]]"
| "Split (c # cs) =
     (if c = CHR ''.'' then [] # Split cs
      else (case Split cs of [] \<Rightarrow> [[c]] | w # ws \<Rightarrow> (c # w) # ws))"

definition is_digit :: "char \<Rightarrow> bool" where
  "is_digit c = (48 \<le> (of_char c :: nat) \<and> (of_char c :: nat) \<le> 57)"

fun digits_val :: "nat \<Rightarrow> string \<Rightarrow> nat" where
  "digits_val n [] = n"
| "digits_val n (c # cs) = digits_val (n * 10 + ((of_char c :: nat) - 48)) cs"

text \<open>
  \<open>strconv.Atoi\<close>: an optional sign, then at least one decimal digit and nothing else;
  a value outside the range of \<open>int\<close> is an error as well. \<open>None\<close> stands for
  \<open>err != nil\<close>.
\<close>

definition Atoi :: "string \<Rightarrow> goint option" where
  "Atoi s =
     (let neg = (s \<noteq> [] \<and> hd s = CHR ''-'');
          ds = (if s \<noteq> [] \<and> (hd s = CHR ''-'' \<or> hd s = CHR ''+'') then tl s else s)
      in if ds = [] \<or> \<not> list_all is_digit ds then None
         else let n = digits_val 0 ds
              in if neg then (if n > 9223372036854775808 then None else Some (- word_of_nat n))
                 else (if n \<ge> 9223372036854775808 then None else Some (word_of_nat n)))"

text \<open>
  \<open>int(math.Pow10(e))\<close>: \<open>math.Pow10\<close> is exact up to \<open>10 ^ 22\<close>, and the conversion to
  \<open>int\<close> is exact while the value fits, that is for \<open>e \<le> 18\<close>. Beyond that Go leaves the
  result of the conversion to the implementation; it is the parameter \<open>ovf\<close>.
\<close>

definition Pow10_int :: "(nat \<Rightarrow> goint) \<Rightarrow> nat \<Rightarrow> goint" where
  "Pow10_int ovf e = (if e \<le> 18 then 10 ^ e else ovf e)"

subsection \<open>The version resolver\<close>

text \<open>
  The loop of \<open>version2Int\<close> over the components, \<open>key\<close> counting them; \<open>None\<close> is the
  early \<open>return -1\<close>.
\<close>

fun version2Int_loop :: "(nat \<Rightarrow> goint) \<Rightarrow> nat \<Rightarrow> nat \<Rightarrow> goint \<Rightarrow> string list \<Rightarrow> goint option" where
  "version2Int_loop ovf len key v [] = Some v"
| "version2Int_loop ovf len key v (x # xs) =
     (case Atoi x of
        None \<Rightarrow> None
      | Some v0 \<Rightarrow>
          version2Int_loop ovf len (Suc key) (v + v0 * Pow10_int ovf ((len - key - 1) * 2)) xs)"

definition version2Int :: "(nat \<Rightarrow> goint) \<Rightarrow> string \<Rightarrow> goint" where
  "version2Int ovf version =
     (let varr = Split version; len = length varr
      in case version2Int_loop ovf len 0 0 varr of
           None \<Rightarrow> - 1
         | Some v \<Rightarrow> if len = 3 then v * 100 else v)"

text \<open>
  \<open>versionInt\<close>, the package-level cache, is state: \<open>isSupportResponseAttachment\<close> takes
  it and returns it. \<open>lowest\<close> is the constant \<open>LOWEST_VERSION_FOR_RESPONSE_ATTACHMENT\<close>,
  declared outside response.go.
\<close>

type_synonym version_cache = "string \<rightharpoonup> goint"

definition isSupportResponseAttachment ::
    "(nat \<Rightarrow> goint) \<Rightarrow> goint \<Rightarrow> version_cache \<Rightarrow> string \<Rightarrow> bool \<times> version_cache" where
  "isSupportResponseAttachment ovf lowest versionInt version =
     (if version = [] then (False, versionInt)
      else
        (case (case versionInt version of
                 Some v \<Rightarrow> Some v
               | None \<Rightarrow> (let v = version2Int ovf version in if v = - 1 then None else Some v)) of
           None \<Rightarrow> (False, versionInt)
         | Some v \<Rightarrow>
             if 2001000 \<le> sint v \<and> sint v \<le> 2060200 then (False, versionInt)
             else (sint lowest \<le> sint v, versionInt)))"


subsection \<open>Go values, types and reflection\<close>

text \<open>
  The dynamic values the codec handles (what an \<open>interface{}\<close> holds), each with its
  dynamic type. \<open>VNil\<close> is the nil interface. A slice and a map carry their element types
  and are nil (\<open>None\<close>) or hold their content; a map is an association list with unique
  keys. A pointer is nil or the address of a variable in the store. Error values are
  opaque apart from their message and whether they satisfy \<open>java_exception.Throwabler\<close>;
  their types are named struct types, and \<open>VStruct n\<close> is the zero value of the struct
  type named \<open>n\<close>. Recursive types are not among the types.
\<close>

datatype gotype =
    TBool | TInt32 | TInt64 | TString
  | TInterface
  | TStruct string
  | TSlice gotype
  | TArray nat gotype
  | TMap gotype gotype
  | TPtr gotype

datatype goerror = Throwable string | PlainError string

datatype goval =
    VNil
  | VBool bool
  | VInt32 "32 word"
  | VInt64 "64 word"
  | VString string
  | VError goerror
  | VStruct string
  | VSlice gotype "goval list option"
  | VArray gotype "goval list"
  | VMap gotype gotype "(goval \<times> goval) list option"
  | VPtr gotype "nat option"

datatype kind =
    KInvalid | KBool | KInt32 | KInt64 | KString | KInterface | KStruct
  | KSlice | KArray | KMap | KPtr

type_synonym store = "nat \<Rightarrow> goval"

fun Error :: "goerror \<Rightarrow> string" where
  "Error (Throwable m) = m"
| "Error (PlainError m) = m"

definition NewThrowable :: "string \<Rightarrow> goerror" where
  "NewThrowable m = Throwable m"

fun kind_of :: "gotype \<Rightarrow> kind" where
  "kind_of TBool = KBool"
| "kind_of TInt32 = KInt32"
| "kind_of TInt64 = KInt64"
| "kind_of TString = KString"
| "kind_of TInterface = KInterface"
| "kind_of (TStruct n) = KStruct"
| "kind_of (TSlice t) = KSlice"
| "kind_of (TArray n t) = KArray"
| "kind_of (TMap k v) = KMap"
| "kind_of (TPtr t) = KPtr"

text \<open>\<open>reflect.TypeOf\<close>: the dynamic type; the nil interface has none.\<close>

fun TypeOf :: "goval \<Rightarrow> gotype option" where
  "TypeOf VNil = None"
| "TypeOf (VBool b) = Some TBool"
| "TypeOf (VInt32 w) = Some TInt32"
| "TypeOf (VInt64 w) = Some TInt64"
| "TypeOf (VString s) = Some TString"
| "TypeOf (VError (Throwable m)) = Some (TStruct ''Throwable'')"
| "TypeOf (VError (PlainError m)) = Some (TStruct ''errorString'')"
| "TypeOf (VStruct n) = Some (TStruct n)"
| "TypeOf (VSlice t xs) = Some (TSlice t)"
| "TypeOf (VArray t xs) = Some (TArray (length xs) t)"
| "TypeOf (VMap k v m) = Some (TMap k v)"
| "TypeOf (VPtr t a) = Some (TPtr t)"

text \<open>The zero value of a type, which \<open>reflect.MakeSlice\<close> fills a new slice with.\<close>

fun zero :: "gotype \<Rightarrow> goval" where
  "zero TBool = VBool False"
| "zero TInt32 = VInt32 0"
| "zero TInt64 = VInt64 0"
| "zero TString = VString []"
| "zero TInterface = VNil"
| "zero (TStruct n) = VStruct n"
| "zero (TSlice t) = VSlice t None"
| "zero (TArray n t) = VArray t (replicate n (zero t))"
| "zero (TMap k v) = VMap k v None"
| "zero (TPtr t) = VPtr t None"

text \<open>
  \<open>Type.AssignableTo\<close>: identical types, or the target is \<open>interface{}\<close>, which every
  type implements.
\<close>

definition AssignableTo :: "gotype \<Rightarrow> gotype \<Rightarrow> bool" where
  "AssignableTo t u = (t = u \<or> u = TInterface)"

text \<open>
  A \<open>reflect.Value\<close>: the zero Value, a value that is not addressable (what
  \<open>reflect.ValueOf\<close> returns), or a variable of a static type at an address of the store
  (what \<open>Elem\<close> of a pointer returns), which is settable.
\<close>

datatype rvalue = RInvalid | RConst gotype goval | RVar gotype nat

datatype panic =
    NilPointerDereference
  | IndexOutOfRange
  | IsNilOfKind kind
  | TypeOfZeroValue
  | MakeSliceOfNonSlice
  | MakeMapOfNonMap
  | SetUnaddressable
  | SetNotAssignable

datatype error =
    DecodeError string
  | DataTooLarge nat nat
  | WrongAttachments
  | InIsNil
  | OutIsNil
  | OutNotPointer
  | InNotSlice kind
  | InNotMap kind
  | CanNotInterface
  | ElemNotAssignable gotype gotype
  | KeyNotAssignable gotype goval gotype
  | ValueNotAssignable gotype goval gotype

datatype 'a result = Ok 'a | Err error | Panic panic

definition ValueOf :: "goval \<Rightarrow> rvalue" where
  "ValueOf v = (case TypeOf v of None \<Rightarrow> RInvalid | Some t \<Rightarrow> RConst t v)"

fun rkind :: "rvalue \<Rightarrow> kind" where
  "rkind RInvalid = KInvalid"
| "rkind (RConst t v) = kind_of t"
| "rkind (RVar t a) = kind_of t"

fun rget :: "store \<Rightarrow> rvalue \<Rightarrow> goval" where
  "rget st RInvalid = VNil"
| "rget st (RConst t v) = v"
| "rget st (RVar t a) = st a"

text \<open>
  \<open>Value.IsNil\<close> panics unless the kind is one that can be nil (of the kinds here:
  interface, map, pointer, slice); \<open>None\<close> is the panic. A Value of kind interface is
  nil when the interface is, whatever it holds.
\<close>

fun is_nil_val :: "goval \<Rightarrow> bool" where
  "is_nil_val VNil = True"
| "is_nil_val (VSlice t None) = True"
| "is_nil_val (VMap k v None) = True"
| "is_nil_val (VPtr t None) = True"
| "is_nil_val v = False"

definition IsNil :: "store \<Rightarrow> rvalue \<Rightarrow> bool option" where
  "IsNil st rv =
     (if rkind rv = KInterface then Some (rget st rv = VNil)
      else if rkind rv \<in> {KMap, KPtr, KSlice} then Some (is_nil_val (rget st rv))
      else None)"

text \<open>
  \<open>Value.Elem\<close> of a pointer: the variable it points to, the zero Value for nil. The loop
  of \<open>CopySlice\<close> applies it to pointers only; for any other Value it is the zero Value
  here.
\<close>

fun Elem :: "store \<Rightarrow> rvalue \<Rightarrow> rvalue" where
  "Elem st (RConst (TPtr t) (VPtr u (Some a))) = RVar t a"
| "Elem st (RVar (TPtr t) b) = (case st b of VPtr u (Some a) \<Rightarrow> RVar t a | _ \<Rightarrow> RInvalid)"
| "Elem st rv = RInvalid"

fun rtype_size :: "rvalue \<Rightarrow> nat" where
  "rtype_size RInvalid = 0"
| "rtype_size (RConst t v) = size t"
| "rtype_size (RVar t a) = size t"

text \<open>
  The loop \<open>for outSlice.Kind() == reflect.Ptr { outSlice = outSlice.Elem() }\<close>. It ends
  because each step moves to the pointee type, which is smaller.
\<close>

function UnpackPtr :: "store \<Rightarrow> rvalue \<Rightarrow> rvalue" where
  "UnpackPtr st rv = (if rkind rv = KPtr then UnpackPtr st (Elem st rv) else rv)"
  by pat_completeness auto


termination UnpackPtr
proof (relation "measure (\<lambda>(st, rv). rtype_size rv)")
  show "wf (measure (\<lambda>(st, rv). rtype_size rv))"
    by simp
next
  fix st :: store and rv :: rvalue
  assume ptr: "rkind rv = KPtr"
  have "rtype_size (Elem st rv) < rtype_size rv"
  proof (cases rv)
    case RInvalid
    with ptr show ?thesis by simp
  next
    case (RConst t v)
    with ptr obtain u where t: "t = TPtr u"
      by (cases t) simp_all
    show ?thesis
    proof (cases v)
      case (VPtr w p)
      with RConst t show ?thesis by (cases p) simp_all
    qed (use RConst t in simp_all)
  next
    case (RVar t a)
    with ptr show ?thesis
      by (cases t; simp split: goval.splits option.splits)
  qed
  then show "((st, Elem st rv), (st, rv)) \<in> measure (\<lambda>(st, rv). rtype_size rv)"
    by simp
qed

subsection \<open>The value coercion layer\<close>

fun slice_elems :: "goval \<Rightarrow> goval list" where
  "slice_elems (VSlice t (Some xs)) = xs"
| "slice_elems v = []"

fun type_elem :: "gotype \<Rightarrow> gotype" where
  "type_elem (TSlice t) = t"
| "type_elem (TArray n t) = t"
| "type_elem (TMap k v) = v"
| "type_elem (TPtr t) = t"
| "type_elem t = t"

fun rtype :: "rvalue \<Rightarrow> gotype" where
  "rtype (RConst t v) = t"
| "rtype (RVar t a) = t"
| "rtype RInvalid = TInterface"

text \<open>\<open>outSlice.Index(i).Set(x)\<close> on the slice held by the variable at \<open>a\<close>.\<close>

definition set_index :: "store \<Rightarrow> nat \<Rightarrow> nat \<Rightarrow> goval \<Rightarrow> store" where
  "set_index st a i x =
     st(a := (case st a of VSlice t (Some ys) \<Rightarrow> VSlice t (Some (ys[i := x])) | v \<Rightarrow> v))"

text \<open>
  The copying loop of \<open>CopySlice\<close>, from index \<open>i\<close> for the \<open>n\<close> iterations that remain up
  to \<open>size\<close>. Each iteration reads \<open>inSlice.Index(i)\<close> anew, from the store as it is then
  (an index beyond the slice panics). The type of \<open>inSlice.Index(i)\<close> is the element type
  of the input slice; the error names it and \<open>outSlice.Type()\<close>, the type \<open>ot\<close> of the
  destination slice.
\<close>

fun CopySlice_loop ::
    "store \<Rightarrow> rvalue \<Rightarrow> gotype \<Rightarrow> nat \<Rightarrow> nat \<Rightarrow> nat \<Rightarrow> unit result \<times> store" where
  "CopySlice_loop st inSlice ot a i 0 = (Ok (), st)"
| "CopySlice_loop st inSlice ot a i (Suc n) =
     (let xs = slice_elems (rget st inSlice)
      in if length xs \<le> i then (Panic IndexOutOfRange, st)
         else if \<not> AssignableTo (type_elem (rtype inSlice)) (type_elem ot)
           then (Err (ElemNotAssignable (type_elem (rtype inSlice)) ot), st)
         else CopySlice_loop (set_index st a i (xs ! i)) inSlice ot a (Suc i) n)"

definition CopySlice :: "store \<Rightarrow> rvalue \<Rightarrow> rvalue \<Rightarrow> unit result \<times> store" where
  "CopySlice st inSlice outSlice0 =
     (case IsNil st inSlice of
        None \<Rightarrow> (Panic (IsNilOfKind (rkind inSlice)), st)
      | Some True \<Rightarrow> (Err InIsNil, st)
      | Some False \<Rightarrow>
          if rkind inSlice \<noteq> KSlice then (Err (InNotSlice (rkind inSlice)), st)
          else
            let outSlice = UnpackPtr st outSlice0;
                size = length (slice_elems (rget st inSlice))
            in (case outSlice of
                  RInvalid \<Rightarrow> (Panic TypeOfZeroValue, st)
                | RConst t v \<Rightarrow>
                    if kind_of t \<noteq> KSlice then (Panic MakeSliceOfNonSlice, st)
                    else (Panic SetUnaddressable, st)
                | RVar t a \<Rightarrow>
                    if kind_of t \<noteq> KSlice then (Panic MakeSliceOfNonSlice, st)
                    else
                      CopySlice_loop
                        (st(a := VSlice (type_elem t) (Some (replicate size (zero (type_elem t))))))
                        inSlice t a 0 size))"

text \<open>
  Modelled from the spec: \<open>EnsurePackValue\<close>, \<open>SetValue\<close>, \<open>UnpackPtrType\<close> and
  \<open>UnpackPtrValue\<close> are helpers of the package that response.go calls and does not
  define. \<open>EnsurePackValue\<close> packs a value as a reflection value. \<open>SetValue\<close> "assigns
  decoded to destination directly", the destination being "always reached through a
  mutable reference/pointer": it stores into the variable the destination points to (or
  is), and as an assignment of \<open>reflect\<close> it panics where the types do not allow it.
  \<open>UnpackPtrType\<close> and \<open>UnpackPtrValue\<close> look "through one level of reference
  indirection".
\<close>

definition EnsurePackValue :: "goval \<Rightarrow> rvalue" where
  "EnsurePackValue v = ValueOf v"

definition SetValue :: "store \<Rightarrow> rvalue \<Rightarrow> rvalue \<Rightarrow> unit result \<times> store" where
  "SetValue st dest v =
     (case (case dest of RVar t a \<Rightarrow> dest | _ \<Rightarrow> Elem st dest) of
        RVar t a \<Rightarrow>
          (case v of
             RInvalid \<Rightarrow> (Panic SetNotAssignable, st)
           | _ \<Rightarrow>
               if AssignableTo (rtype v) t then (Ok (), st(a := rget st v))
               else (Panic SetNotAssignable, st))
      | _ \<Rightarrow> (Panic SetUnaddressable, st))"

fun UnpackPtrType :: "gotype \<Rightarrow> gotype" where
  "UnpackPtrType (TPtr t) = t"
| "UnpackPtrType t = t"

definition UnpackPtrValue :: "store \<Rightarrow> rvalue \<Rightarrow> rvalue" where
  "UnpackPtrValue st rv = (case Elem st rv of RInvalid \<Rightarrow> rv | e \<Rightarrow> e)"

fun map_entries :: "goval \<Rightarrow> (goval \<times> goval) list" where
  "map_entries (VMap k v (Some m)) = m"
| "map_entries v = []"

fun map_update :: "goval \<Rightarrow> goval \<Rightarrow> (goval \<times> goval) list \<Rightarrow> (goval \<times> goval) list" where
  "map_update k v [] = [(k, v)]"
| "map_update k v (p # ps) = (if fst p = k then (k, v) # ps else p # map_update k v ps)"

text \<open>\<open>outMapValue.SetMapIndex(inKey, inValue)\<close> on the map held by the variable at \<open>a\<close>.\<close>

definition SetMapIndex :: "store \<Rightarrow> nat \<Rightarrow> goval \<Rightarrow> goval \<Rightarrow> store" where
  "SetMapIndex st a k v =
     st(a := (case st a of VMap kt vt (Some m) \<Rightarrow> VMap kt vt (Some (map_update k v m)) | w \<Rightarrow> w))"

fun type_key :: "gotype \<Rightarrow> gotype" where
  "type_key (TMap k v) = k"
| "type_key t = t"

text \<open>
  \<open>Value.CanInterface\<close> is false only for a Value read from an unexported struct
  field; the model has none.
\<close>

definition CanInterface :: "rvalue \<Rightarrow> bool" where
  "CanInterface rv = True"

text \<open>The loop of \<open>CopyMap\<close> over the keys of the input map.\<close>

fun CopyMap_loop ::
    "store \<Rightarrow> gotype \<Rightarrow> gotype \<Rightarrow> gotype \<Rightarrow> gotype \<Rightarrow> nat \<Rightarrow> (goval \<times> goval) list
       \<Rightarrow> unit result \<times> store" where
  "CopyMap_loop st ikt ivt outKeyType outValueType a [] = (Ok (), st)"
| "CopyMap_loop st ikt ivt outKeyType outValueType a (p # ps) =
     (if \<not> AssignableTo ikt outKeyType
        then (Err (KeyNotAssignable ikt (fst p) outKeyType), st)
      else if \<not> AssignableTo ivt outValueType
        then (Err (ValueNotAssignable ivt (snd p) outValueType), st)
      else CopyMap_loop (SetMapIndex st a (fst p) (snd p)) ikt ivt outKeyType outValueType a ps)"

definition CopyMap :: "store \<Rightarrow> rvalue \<Rightarrow> rvalue \<Rightarrow> unit result \<times> store" where
  "CopyMap st inMapValue outMapValue0 =
     (case IsNil st inMapValue of
        None \<Rightarrow> (Panic (IsNilOfKind (rkind inMapValue)), st)
      | Some True \<Rightarrow> (Err InIsNil, st)
      | Some False \<Rightarrow>
          if \<not> CanInterface inMapValue then (Err CanNotInterface, st)
          else if rkind inMapValue \<noteq> KMap then (Err (InNotMap (rkind inMapValue)), st)
          else if outMapValue0 = RInvalid then (Panic TypeOfZeroValue, st)
          else
            let outMapType = UnpackPtrType (rtype outMapValue0)
            in if kind_of outMapType \<noteq> KMap then (Panic MakeMapOfNonMap, st)
               else
                 (case SetValue st outMapValue0
                         (RConst outMapType (VMap (type_key outMapType) (type_elem outMapType) (Some []))) of
                    (Ok u, st1) \<Rightarrow>
                      let outKeyType = type_key outMapType;
                          outMapValue = UnpackPtrValue st1 outMapValue0;
                          outValueType = type_elem (rtype outMapValue)
                      in (case outMapValue of
                            RVar t a \<Rightarrow>
                              CopyMap_loop st1 (type_key (rtype inMapValue))
                                (type_elem (rtype inMapValue)) outKeyType outValueType a
                                (map_entries (rget st inMapValue))
                          | _ \<Rightarrow> (Panic SetUnaddressable, st1))
                  | (r, st1) \<Rightarrow> (r, st1)))"

definition ReflectResponse :: "store \<Rightarrow> goval \<Rightarrow> goval \<Rightarrow> unit result \<times> store" where
  "ReflectResponse st in_v out =
     (if in_v = VNil then (Err InIsNil, st)
      else if out = VNil then (Err OutIsNil, st)
      else if map_option kind_of (TypeOf out) \<noteq> Some KPtr then (Err OutNotPointer, st)
      else
        let inValue = EnsurePackValue in_v;
            outValue = EnsurePackValue out;
            outType = rtype outValue
        in if outType = TInterface \<or> outType = TPtr TInterface
           then (case SetValue st outValue inValue of (r, st1) \<Rightarrow>
                   (case r of Panic p \<Rightarrow> (Panic p, st1) | _ \<Rightarrow> (Ok (), st1)))
           else if rkind inValue = KSlice \<or> rkind inValue = KArray
             then CopySlice st inValue outValue
           else if rkind inValue = KMap
             then CopyMap st inValue outValue
           else (case SetValue st outValue inValue of (r, st1) \<Rightarrow>
                   (case r of Panic p \<Rightarrow> (Panic p, st1) | _ \<Rightarrow> (Ok (), st1))))"


subsection \<open>Responses, headers and the constants of the package\<close>

type_synonym strmap = "(string \<times> string) list option"

record Response =
  RspObj :: goval
  Exception :: "goerror option"
  Attachments :: strmap

text \<open>
  What \<open>packResponse\<close> and \<open>unpackResponseBody\<close> receive as \<open>interface{}\<close>: a
  \<open>*Response\<close> (nil, or pointing to a response) or any other value.
\<close>

datatype body = BResponse "Response option" | BValue goval

definition NewResponse :: "goval \<Rightarrow> goerror option \<Rightarrow> strmap \<Rightarrow> Response" where
  "NewResponse rspObj exception attachments =
     \<lparr>RspObj = rspObj, Exception = exception,
      Attachments = (case attachments of None \<Rightarrow> Some [] | Some m \<Rightarrow> Some m)\<rparr>"

fun EnsureResponse :: "body \<Rightarrow> Response option" where
  "EnsureResponse (BResponse res) = res"
| "EnsureResponse (BValue (VError exp)) = Some (NewResponse VNil (Some exp) None)"
| "EnsureResponse (BValue v) = Some (NewResponse v None None)"

text \<open>
  Modelled from the spec: the header type and the kinds of package are declared outside
  response.go. The kind is the enum "{Request, Response, Heartbeat}"; the header has
  the serialization id, the kind, the 64-bit correlation id and the status byte.
\<close>

datatype PackageType = PackageRequest | PackageResponse | PackageHeartbeat

record DubboHeader =
  SerialID :: byte
  Type :: PackageType
  ID :: "64 word"
  ResponseStatus :: byte

text \<open>
  Modelled from the spec: "header is always exactly 16 bytes", the serialization id is
  the "low 5 bits" of byte 2, status "20 means OK", and the maximum frame size is
  "8 MiB".
\<close>

definition HEADER_LENGTH :: nat where
  "HEADER_LENGTH = 16"

definition SERIAL_MASK :: byte where
  "SERIAL_MASK = 0x1f"

definition Response_OK :: byte where
  "Response_OK = 20"

definition DEFAULT_LEN :: nat where
  "DEFAULT_LEN = 8388608"

text \<open>
  The other constants that response.go uses and does not declare are parameters: the two
  header templates, the six discriminators (of type \<open>int32\<close>, as the variables they are
  assigned to), the attachment key of the protocol version, the lowest version that
  supports attachments, and the terminator byte that \<open>encNull\<close> appends. So are the
  external collaborators: the encoder, which appends the encoding of a value to its
  buffer, the decoder, which yields one value per call and the rest of its buffer, the
  formatting of a value by \<open>%+v\<close>, and the out-of-range conversion of \<open>Pow10_int\<close>.
\<close>

record env =
  DubboResponseHeartbeatHeader :: "byte list"
  DubboResponseHeaderBytes :: "byte list"
  RESPONSE_WITH_EXCEPTION :: "32 word"
  RESPONSE_VALUE :: "32 word"
  RESPONSE_NULL_VALUE :: "32 word"
  RESPONSE_WITH_EXCEPTION_WITH_ATTACHMENTS :: "32 word"
  RESPONSE_VALUE_WITH_ATTACHMENTS :: "32 word"
  RESPONSE_NULL_VALUE_WITH_ATTACHMENTS :: "32 word"
  DUBBO_VERSION_KEY :: string
  LOWEST_VERSION_FOR_RESPONSE_ATTACHMENT :: goint
  BC_NULL :: byte
  encode :: "goval \<Rightarrow> byte list"
  decode :: "byte list \<Rightarrow> error + goval \<times> byte list"
  format_value :: "goval \<Rightarrow> string"
  float_overflow :: "nat \<Rightarrow> goint"

text \<open>Modelled from the spec: \<open>encNull\<close> applies "a defensive trailing terminator byte".\<close>

definition encNull :: "env \<Rightarrow> byte list \<Rightarrow> byte list" where
  "encNull E b = b @ [BC_NULL E]"

definition be_bytes64 :: "64 word \<Rightarrow> byte list" where
  "be_bytes64 w = map (\<lambda>i. ucast (drop_bit (8 * i) w)) [7, 6, 5, 4, 3, 2, 1, 0]"

definition be_bytes32 :: "32 word \<Rightarrow> byte list" where
  "be_bytes32 w = map (\<lambda>i. ucast (drop_bit (8 * i) w)) [3, 2, 1, 0]"

text \<open>
  \<open>binary.BigEndian.PutUint64(b[off:], v)\<close> and \<open>PutUint32\<close>, writing in place; \<open>None\<close>
  is the panic on a buffer that is too short.
\<close>

definition PutUint64 :: "byte list \<Rightarrow> nat \<Rightarrow> 64 word \<Rightarrow> byte list option" where
  "PutUint64 b off v =
     (if length b < off + 8 then None else Some (take off b @ be_bytes64 v @ drop (off + 8) b))"

definition PutUint32 :: "byte list \<Rightarrow> nat \<Rightarrow> 32 word \<Rightarrow> byte list option" where
  "PutUint32 b off v =
     (if length b < off + 4 then None else Some (take off b @ be_bytes32 v @ drop (off + 4) b))"

subsection \<open>The response frame builder\<close>

definition strmap_val :: "strmap \<Rightarrow> goval" where
  "strmap_val m = VMap TString TString (map_option (map (\<lambda>(k, v). (VString k, VString v))) m)"

text \<open>\<open>response.Attachments[key]\<close>: the empty string for a missing key or a nil map.\<close>

definition attachment :: "strmap \<Rightarrow> string \<Rightarrow> string" where
  "attachment m k =
     (case m of None \<Rightarrow> [] | Some ps \<Rightarrow> (case map_of ps k of None \<Rightarrow> [] | Some v \<Rightarrow> v))"

text \<open>
  The bytes that the encoder appends after the header, by status and kind: the part of
  \<open>packResponse\<close> between \<open>encoder.Append\<close> and \<open>encoder.Buffer\<close>.
\<close>

definition packBody ::
    "env \<Rightarrow> version_cache \<Rightarrow> DubboHeader \<Rightarrow> Response option \<Rightarrow> bool \<Rightarrow> byte list result" where
  "packBody E versionInt header response hb =
     (if ResponseStatus header = Response_OK then
        (if hb then Ok (encode E VNil)
         else
           (case response of
              None \<Rightarrow> Panic NilPointerDereference
            | Some r \<Rightarrow>
                let atta = fst (isSupportResponseAttachment (float_overflow E)
                                  (LOWEST_VERSION_FOR_RESPONSE_ATTACHMENT E) versionInt
                                  (attachment (Attachments r) (DUBBO_VERSION_KEY E)));
                    resWithException = (if atta then RESPONSE_WITH_EXCEPTION_WITH_ATTACHMENTS E
                                        else RESPONSE_WITH_EXCEPTION E);
                    resValue = (if atta then RESPONSE_VALUE_WITH_ATTACHMENTS E
                                else RESPONSE_VALUE E);
                    resNullValue = (if atta then RESPONSE_NULL_VALUE_WITH_ATTACHMENTS E
                                    else RESPONSE_NULL_VALUE E);
                    b = (case Exception r of
                           Some e \<Rightarrow>
                             encode E (VInt32 resWithException) @
                             (case e of
                                Throwable m \<Rightarrow> encode E (VError e)
                              | _ \<Rightarrow> encode E (VError (NewThrowable (Error e))))
                         | None \<Rightarrow>
                             if RspObj r = VNil then encode E (VInt32 resNullValue)
                             else encode E (VInt32 resValue) @ encode E (RspObj r))
                in Ok (if atta then b @ encode E (strmap_val (Attachments r)) else b)))
      else
        (case response of
           None \<Rightarrow> Panic NilPointerDereference
         | Some r \<Rightarrow>
             (case Exception r of
                Some e \<Rightarrow> Ok (encode E (VString (Error e)))
              | None \<Rightarrow> Ok (encode E (RspObj r)))))"

definition packResponse ::
    "env \<Rightarrow> version_cache \<Rightarrow> DubboHeader \<Rightarrow> body \<Rightarrow> byte list result" where
  "packResponse E versionInt header ret =
     (let response = EnsureResponse ret;
          hb = (Type header = PackageHeartbeat);
          byteArray0 = (if hb then DubboResponseHeartbeatHeader E else DubboResponseHeaderBytes E)
      in if length byteArray0 \<le> 2 then Panic IndexOutOfRange
         else
           let byteArray1 = byteArray0[2 := byteArray0 ! 2 OR (SerialID header AND SERIAL_MASK)]
           in if ResponseStatus header \<noteq> 0 \<and> length byteArray1 \<le> 3 then Panic IndexOutOfRange
              else
                let byteArray2 = (if ResponseStatus header \<noteq> 0
                                  then byteArray1[3 := ResponseStatus header] else byteArray1)
                in (case PutUint64 byteArray2 4 (ID header) of
                      None \<Rightarrow> Panic IndexOutOfRange
                    | Some byteArray3 \<Rightarrow>
                        if length byteArray3 < HEADER_LENGTH then Panic IndexOutOfRange
                        else
                          (case packBody E versionInt header response hb of
                             Ok encoded \<Rightarrow>
                               let byteArray = encNull E (take HEADER_LENGTH byteArray3 @ encoded);
                                   pkgLen = length byteArray
                               in if pkgLen > DEFAULT_LEN
                                  then Err (DataTooLarge pkgLen DEFAULT_LEN)
                                  else (case PutUint32 byteArray 12
                                               (word_of_nat (pkgLen - HEADER_LENGTH)) of
                                          None \<Rightarrow> Panic IndexOutOfRange
                                        | Some frame \<Rightarrow> Ok frame)
                           | Err e \<Rightarrow> Err e
                           | Panic p \<Rightarrow> Panic p)))"

subsection \<open>The response frame parser\<close>

fun string_of :: "goval \<Rightarrow> string" where
  "string_of (VString s) = s"
| "string_of v = []"

text \<open>The type assertion \<open>attachments.(map[string]string)\<close>; \<open>None\<close> is \<open>!ok\<close>.\<close>

fun as_strmap :: "goval \<Rightarrow> strmap option" where
  "as_strmap (VMap TString TString m) =
     Some (map_option (map (\<lambda>(k, v). (string_of k, string_of v))) m)"
| "as_strmap v = None"

text \<open>
  Decoding and storing the attachments, which each of the three attachment-aware
  branches of \<open>unpackResponseBody\<close> does in the same words. It returns the response as
  it is afterwards and the rest of the decoder's buffer.
\<close>

definition decodeAttachments ::
    "env \<Rightarrow> byte list \<Rightarrow> Response option \<Rightarrow> unit result \<times> Response option \<times> byte list" where
  "decodeAttachments E buf response =
     (case decode E buf of
        Inl e \<Rightarrow> (Err e, response, buf)
      | Inr (attachments, rest) \<Rightarrow>
          (case as_strmap attachments of
             Some atta \<Rightarrow>
               (case response of
                  None \<Rightarrow> (Panic NilPointerDereference, None, rest)
                | Some r \<Rightarrow> (Ok (), Some (r\<lparr>Attachments := atta\<rparr>), rest))
           | None \<Rightarrow> (Err WrongAttachments, response, rest)))"

text \<open>
  \<open>unpackResponseBody\<close> returns its result, the response that \<open>response\<close> points to as
  the call leaves it, and the store, in which the destination of the value lives.
\<close>

definition unpackResponseBody ::
    "env \<Rightarrow> byte list \<Rightarrow> body \<Rightarrow> store \<Rightarrow> unit result \<times> Response option \<times> store" where
  "unpackResponseBody E buf resp st =
     (case decode E buf of
        Inl err \<Rightarrow> (Err err, EnsureResponse resp, st)
      | Inr (rspType, rest) \<Rightarrow>
          let response = EnsureResponse resp
          in if rspType = VInt32 (RESPONSE_WITH_EXCEPTION E)
                \<or> rspType = VInt32 (RESPONSE_WITH_EXCEPTION_WITH_ATTACHMENTS E) then
               (case decode E rest of
                  Inl err \<Rightarrow> (Err err, response, st)
                | Inr (expt, rest1) \<Rightarrow>
                    (case (if rspType = VInt32 (RESPONSE_WITH_EXCEPTION_WITH_ATTACHMENTS E)
                           then decodeAttachments E rest1 response
                           else (Ok (), response, rest1)) of
                       (Ok u, response1, rest2) \<Rightarrow>
                         (case response1 of
                            None \<Rightarrow> (Panic NilPointerDereference, None, st)
                          | Some r \<Rightarrow>
                              (Ok (),
                               Some (r\<lparr>Exception :=
                                  Some (case expt of
                                          VError e \<Rightarrow> e
                                        | _ \<Rightarrow> PlainError (''got exception: '' @ format_value E expt))\<rparr>),
                               st))
                     | (r, response1, rest2) \<Rightarrow> (r, response1, st)))
             else if rspType = VInt32 (RESPONSE_VALUE E)
                \<or> rspType = VInt32 (RESPONSE_VALUE_WITH_ATTACHMENTS E) then
               (case decode E rest of
                  Inl err \<Rightarrow> (Err err, response, st)
                | Inr (rsp, rest1) \<Rightarrow>
                    (case (if rspType = VInt32 (RESPONSE_VALUE_WITH_ATTACHMENTS E)
                           then decodeAttachments E rest1 response
                           else (Ok (), response, rest1)) of
                       (Ok u, response1, rest2) \<Rightarrow>
                         (case response1 of
                            None \<Rightarrow> (Panic NilPointerDereference, None, st)
                          | Some r \<Rightarrow>
                              (case ReflectResponse st rsp (RspObj r) of
                                 (res, st1) \<Rightarrow> (res, response1, st1)))
                     | (r, response1, rest2) \<Rightarrow> (r, response1, st)))
             else if rspType = VInt32 (RESPONSE_NULL_VALUE E)
                \<or> rspType = VInt32 (RESPONSE_NULL_VALUE_WITH_ATTACHMENTS E) then
               (case (if rspType = VInt32 (RESPONSE_NULL_VALUE_WITH_ATTACHMENTS E)
                      then decodeAttachments E rest response
                      else (Ok (), response, rest)) of
                  (r, response1, rest1) \<Rightarrow> (r, response1, st))
             else (Ok (), response, st))"


subsection \<open>An instance of the parameters\<close>

text \<open>
  A small codec in the manner of Hessian, for evaluating the builder and the parser: nil
  is \<open>N\<close>, an \<open>int32\<close> is \<open>I\<close> and its four bytes, the empty attachment map is \<open>H Z\<close>.
  Other values are not encoded, and other bytes are not decoded. The constants are those
  of Dubbo, and the out-of-range conversion gives the smallest \<open>int\<close>, as amd64 does.
\<close>

definition sample_encode :: "goval \<Rightarrow> byte list" where
  "sample_encode v =
     (case v of
        VNil \<Rightarrow> [0x4E]
      | VInt32 w \<Rightarrow> 0x49 # be_bytes32 w
      | VMap k t m \<Rightarrow> (if k = TString \<and> t = TString \<and> m = Some [] then [0x48, 0x5A] else [])
      | _ \<Rightarrow> [])"

definition sample_decode :: "byte list \<Rightarrow> error + goval \<times> byte list" where
  "sample_decode buf =
     (case buf of
        [] \<Rightarrow> Inl (DecodeError ''unexpected end of file'')
      | c # r \<Rightarrow>
          if c = 0x4E then Inr (VNil, r)
          else if c = 0x49 then
            (case r of
               b3 # b2 # b1 # b0 # r4 \<Rightarrow>
                 Inr (VInt32 (push_bit 24 (ucast b3) OR push_bit 16 (ucast b2)
                              OR push_bit 8 (ucast b1) OR ucast b0), r4)
             | _ \<Rightarrow> Inl (DecodeError ''unexpected end of file''))
          else if c = 0x48 then
            (case r of
               z # r1 \<Rightarrow>
                 if z = 0x5A then Inr (VMap TString TString (Some []), r1)
                 else Inl (DecodeError ''unsupported map'')
             | _ \<Rightarrow> Inl (DecodeError ''unexpected end of file''))
          else Inl (DecodeError ''unknown tag''))"

definition sample_env :: env where
  "sample_env =
     \<lparr>DubboResponseHeartbeatHeader = [0xda, 0xbb, 0x20, 20, 0, 0, 0, 0, 0, 0, 0, 0, 0, 0, 0, 0],
      DubboResponseHeaderBytes = [0xda, 0xbb, 0x00, 20, 0, 0, 0, 0, 0, 0, 0, 0, 0, 0, 0, 0],
      RESPONSE_WITH_EXCEPTION = 0,
      RESPONSE_VALUE = 1,
      RESPONSE_NULL_VALUE = 2,
      RESPONSE_WITH_EXCEPTION_WITH_ATTACHMENTS = 3,
      RESPONSE_VALUE_WITH_ATTACHMENTS = 4,
      RESPONSE_NULL_VALUE_WITH_ATTACHMENTS = 5,
      DUBBO_VERSION_KEY = ''dubbo'',
      LOWEST_VERSION_FOR_RESPONSE_ATTACHMENT = 2000200,
      BC_NULL = 0x4E,
      encode = sample_encode,
      decode = sample_decode,
      format_value = (\<lambda>v. ''?''),
      float_overflow = (\<lambda>e. - 9223372036854775808)\<rparr>"

definition sample_header :: DubboHeader where
  "sample_header = \<lparr>SerialID = 2, Type = PackageResponse, ID = 0x0102030405060708, ResponseStatus = 20\<rparr>"


text \<open>
  The sample codec extended by a table of values, each encoded as \<open>V\<close> and its
  number in the table.
\<close>

definition table_encode :: "(goval \<times> byte) list \<Rightarrow> goval \<Rightarrow> byte list" where
  "table_encode tab x = (case map_of tab x of Some b \<Rightarrow> [0x56, b] | None \<Rightarrow> sample_encode x)"

definition table_decode :: "(goval \<times> byte) list \<Rightarrow> byte list \<Rightarrow> error + goval \<times> byte list" where
  "table_decode tab buf =
     (case buf of
        c # b # r \<Rightarrow>
          if c = 0x56 then
            (case map_of (map (\<lambda>(v, n). (n, v)) tab) b of
               Some v \<Rightarrow> Inr (v, r)
             | None \<Rightarrow> Inl (DecodeError ''unknown value''))
          else sample_decode buf
      | _ \<Rightarrow> sample_decode buf)"

definition table_env :: "(goval \<times> byte) list \<Rightarrow> env" where
  "table_env tab = sample_env\<lparr>encode := table_encode tab, decode := table_decode tab\<rparr>"

definition demo_tab :: "(goval \<times> byte) list" where
  "demo_tab = [(VSlice TInt32 (Some [VInt32 1, VInt32 2]), 1),
               (VMap TString TString (Some [(VString ''dubbo'', VString ''2.7.1'')]), 2)]"

definition nil_tab :: "(goval \<times> byte) list" where
  "nil_tab = [(VSlice TInt32 None, 1), (VArray TInt32 [VInt32 1, VInt32 2], 2)]"

text \<open>The same parameters with an encoder whose every output has 8 MiB.\<close>

definition big_env :: env where
  "big_env = sample_env\<lparr>encode := (\<lambda>v. replicate 8388608 0)\<rparr>"

subsection \<open>The encoding of a version, in the words of the specification\<close>

text \<open>
  "An integer where each component occupies two decimal digits, most-significant first,
  and a 3-component version is additionally multiplied by 100": the components
  \<open>cs\<close> are the digits of a number in base 100, and \<open>spec_version_value\<close> is that
  number, times 100 for three components.
\<close>

definition spec_version_value :: "int list \<Rightarrow> int" where
  "spec_version_value cs =
     (\<Sum>i<length cs. cs ! i * 100 ^ (length cs - 1 - i)) * (if length cs = 3 then 100 else 1)"


subsection \<open>Auxiliary notions for the frame\<close>

text \<open>The template that \<open>packResponse\<close> selects by the kind of the header.\<close>

definition header_template :: "env \<Rightarrow> DubboHeader \<Rightarrow> byte list" where
  "header_template E h =
     (if Type h = PackageHeartbeat then DubboResponseHeartbeatHeader E else DubboResponseHeaderBytes E)"

text \<open>The number that a sequence of bytes denotes, read big-endian.\<close>

definition be_nat :: "byte list \<Rightarrow> nat" where
  "be_nat bs = foldl (\<lambda>a b. a * 256 + unat b) 0 bs"


subsection \<open>Values that a round trip preserves\<close>

text \<open>
  The values that the coercion layer copies into a destination of their own type: not
  the nil interface, not an array (\<open>CopySlice\<close> panics on it), not a nil slice or map
  (an error), and a map only with unique keys, as every map of Go has.
\<close>

fun copyable :: "goval \<Rightarrow> bool" where
  "copyable VNil = False"
| "copyable (VArray t xs) = False"
| "copyable (VSlice t None) = False"
| "copyable (VMap k v None) = False"
| "copyable (VMap k v (Some m)) = distinct (map fst m)"
| "copyable v = True"

section \<open>Pointer chains\<close>

declare UnpackPtr.simps [simp del]

lemma UnpackPtr_pointer [simp]: "rkind rv = KPtr \<Longrightarrow> UnpackPtr st rv = UnpackPtr st (Elem st rv)"
  by (subst UnpackPtr.simps) simp

lemma UnpackPtr_other [simp]: "rkind rv \<noteq> KPtr \<Longrightarrow> UnpackPtr st rv = rv"
  by (subst UnpackPtr.simps) simp

section \<open>The version resolver\<close>

lemma Split_not_Nil: "Split s \<noteq> []"
  by (induction s) (auto split: list.splits)

lemma loop_None_iff:
  "version2Int_loop ovf len key v xs = None \<longleftrightarrow> (\<exists>x\<in>set xs. Atoi x = None)"
  by (induction xs arbitrary: key v) (auto split: option.splits)

lemma Pow10_int_exact: "k \<le> 9 \<Longrightarrow> Pow10_int ovf (k * 2) = 100 ^ k"
proof -
  assume "k \<le> 9"
  then have "k * 2 \<le> 18" by simp
  then have "Pow10_int ovf (k * 2) = 10 ^ (k * 2)" by (simp add: Pow10_int_def)
  also have "\<dots> = (10 ^ 2) ^ k" by (simp only: power_mult mult.commute [of k 2])
  finally show ?thesis by simp
qed

lemma loop_Some:
  "key + length xs = len \<Longrightarrow> len \<le> 10 \<Longrightarrow> map Atoi xs = map Some ws \<Longrightarrow>
   version2Int_loop ovf len key (word_of_int a * 100 ^ (len - key)) xs
     = Some (word_of_int (foldl (\<lambda>acc c. acc * 100 + c) a (map sint ws)))"
proof (induction xs arbitrary: key a ws)
  case Nil
  then show ?case by simp
next
  case (Cons x xs)
  then obtain w ws' where ws: "ws = w # ws'" and x: "Atoi x = Some w" and rest: "map Atoi xs = map Some ws'"
    by (cases ws) auto
  from Cons.prems have k: "len - key - 1 = length xs" "len - key = Suc (length xs)" "length xs \<le> 9"
    "len - Suc key = length xs"
    by auto
  have step: "word_of_int a * 100 ^ (len - key) + w * Pow10_int ovf ((len - key - 1) * 2)
        = (word_of_int (a * 100 + sint w) :: goint) * 100 ^ (len - Suc key)"
    using k by (simp add: Pow10_int_exact algebra_simps)
  from Cons.prems have "Suc key + length xs = len" by simp
  from Cons.IH [OF this Cons.prems(2) rest, of "a * 100 + sint w"] show ?case
    using x ws step by simp
qed


lemma horner_sum:
  "foldl (\<lambda>acc c. acc * 100 + c) 0 cs = (\<Sum>i<length cs. cs ! i * (100::int) ^ (length cs - 1 - i))"
proof (induction cs rule: rev_induct)
  case Nil
  then show ?case by simp
next
  case (snoc c cs)
  have "(\<Sum>i<length cs. (cs @ [c]) ! i * (100::int) ^ (length cs - i))
        = (\<Sum>i<length cs. (cs ! i * 100 ^ (length cs - 1 - i)) * 100)"
  proof (rule sum.cong)
    fix i assume "i \<in> {..<length cs}"
    then have i: "i < length cs" by simp
    then have "length cs - i = Suc (length cs - 1 - i)" by simp
    then show "(cs @ [c]) ! i * (100::int) ^ (length cs - i) = (cs ! i * 100 ^ (length cs - 1 - i)) * 100"
      using i by (simp add: nth_append)
  qed simp
  then show ?case using snoc.IH by (simp add: sum_distrib_right)
qed

lemma horner_bounds:
  "\<forall>c\<in>set cs. 0 \<le> c \<and> c < 100 \<Longrightarrow>
   0 \<le> foldl (\<lambda>acc c. acc * 100 + c) (0::int) cs \<and> foldl (\<lambda>acc c. acc * 100 + c) 0 cs < 100 ^ length cs"
proof (induction cs rule: rev_induct)
  case Nil
  then show ?case by simp
next
  case (snoc c cs)
  then have "0 \<le> foldl (\<lambda>acc c. acc * 100 + c) (0::int) cs" 
    and "foldl (\<lambda>acc c. acc * 100 + c) 0 cs + 1 \<le> 100 ^ length cs" and "0 \<le> c" "c < 100"
    by auto
  then show ?case by (auto simp: algebra_simps)
qed

lemma horner_digit:
  "\<forall>c\<in>set cs. 0 \<le> c \<and> c < 100 \<Longrightarrow> i < length cs \<Longrightarrow>
   (foldl (\<lambda>acc c. acc * 100 + c) (0::int) cs div 100 ^ (length cs - 1 - i)) mod 100 = cs ! i"
proof (induction cs rule: rev_induct)
  case Nil
  then show ?case by simp
next
  case (snoc c cs)
  let ?H = "foldl (\<lambda>acc c. acc * 100 + c) (0::int) cs"
  from snoc.prems have c: "0 \<le> c" "c < 100" by auto
  show ?case
  proof (cases "i = length cs")
    case True
    with c show ?thesis by simp
  next
    case False
    with snoc.prems have i: "i < length cs" by simp
    then have e: "length cs - i = Suc (length cs - 1 - i)" by simp
    have "(?H * 100 + c) div (100 * 100 ^ (length cs - 1 - i)) = (?H * 100 + c) div 100 div 100 ^ (length cs - 1 - i)"
      by (rule zdiv_zmult2_eq) simp
    also have "(?H * 100 + c) div 100 = ?H" using c by simp
    finally show ?thesis using snoc.IH snoc.prems(1) i e by (simp add: nth_append)
  qed
qed


lemma version2Int_fail:
  "\<exists>x\<in>set (Split s). Atoi x = None \<Longrightarrow> version2Int ovf s = - 1"
  using loop_None_iff [of ovf "length (Split s)" 0 0 "Split s"]
  by (simp add: version2Int_def Let_def)

lemma version2Int_value:
  assumes "map Atoi (Split s) = map Some ws" and "length ws \<le> 10"
  shows "version2Int ovf s = word_of_int (spec_version_value (map sint ws))"
proof -
  from assms(1) have len: "length (Split s) = length ws"
    by (metis length_map)
  have "version2Int_loop ovf (length (Split s)) 0 (word_of_int 0 * 100 ^ (length (Split s) - 0)) (Split s)
          = Some (word_of_int (foldl (\<lambda>acc c. acc * 100 + c) 0 (map sint ws)))"
    by (rule loop_Some) (use assms len in simp_all)
  then have "version2Int_loop ovf (length (Split s)) 0 0 (Split s)
          = Some (word_of_int (\<Sum>i<length ws. map sint ws ! i * 100 ^ (length ws - 1 - i)))"
    using horner_sum [of "map sint ws"] by simp
  then show ?thesis
    using len by (simp add: version2Int_def Let_def spec_version_value_def)
qed

lemma spec_version_value_bounds:
  assumes "\<forall>c\<in>set cs. 0 \<le> c \<and> c < 100" and "length cs \<le> 9"
  shows "0 \<le> spec_version_value cs \<and> spec_version_value cs < 2 ^ 63"
proof -
  let ?H = "foldl (\<lambda>acc c. acc * 100 + c) (0::int) cs"
  from horner_bounds [OF assms(1)] have H: "0 \<le> ?H" "?H < 100 ^ length cs" by auto
  have S: "spec_version_value cs = ?H * (if length cs = 3 then 100 else 1)"
    by (simp add: spec_version_value_def horner_sum)
  show ?thesis
  proof (cases "length cs = 3")
    case True
    with H have "?H < 1000000" by simp
    with H(1) S True show ?thesis by simp
  next
    case False
    have "(100::int) ^ length cs \<le> 100 ^ 9"
      by (rule power_increasing) (use assms(2) in simp_all)
    with H have "?H < 100 ^ 9" by linarith
    with H(1) S False show ?thesis by simp
  qed
qed

lemma spec_version_value_digit:
  assumes "\<forall>c\<in>set cs. 0 \<le> c \<and> c < 100" and "i < length cs"
  shows "(spec_version_value cs div (100 ^ (length cs - 1 - i) * (if length cs = 3 then 100 else 1))) mod 100 = cs ! i"
proof -
  let ?H = "foldl (\<lambda>acc c. acc * 100 + c) (0::int) cs"
  have S: "spec_version_value cs = ?H * (if length cs = 3 then 100 else 1)"
    by (simp add: spec_version_value_def horner_sum)
  have "(?H * 100) div (100 ^ (length cs - 1 - i) * 100) = ?H div 100 ^ (length cs - 1 - i)"
    by simp
  then show ?thesis
    using horner_digit [OF assms] S by (simp split: if_splits)
qed


lemma Split_dot_length: "CHR ''.'' \<in> set s \<Longrightarrow> 2 \<le> length (Split s)"
proof (induction s)
  case Nil
  then show ?case by simp
next
  case (Cons c cs)
  show ?case
  proof (cases "c = CHR ''.''")
    case True
    with Split_not_Nil [of cs] show ?thesis
      by (cases "Split cs") simp_all
  next
    case False
    with Cons.prems have "CHR ''.'' \<in> set cs" by simp
    with Cons.IH have "2 \<le> length (Split cs)" by simp
    with False show ?thesis by (cases "Split cs") simp_all
  qed
qed

lemma Split_trailing_dot: "s \<noteq> [] \<Longrightarrow> last s = CHR ''.'' \<Longrightarrow> last (Split s) = []"
proof (induction s)
  case Nil
  then show ?case by simp
next
  case (Cons c cs)
  show ?case
  proof (cases "cs = []")
    case True
    with Cons.prems show ?thesis by simp
  next
    case False
    with Cons.prems have l: "last cs = CHR ''.''" by simp
    with Cons.IH False have ih: "last (Split cs) = []" by simp
    from False l have "CHR ''.'' \<in> set cs" using last_in_set [of cs] by auto
    then have len: "2 \<le> length (Split cs)" by (rule Split_dot_length)
    then obtain w w' ws where sp: "Split cs = w # w' # ws"
      by (cases "Split cs"; cases "tl (Split cs)") auto
    with ih show ?thesis by (simp split: if_splits)
  qed
qed

lemma Atoi_empty: "Atoi [] = None"
  by (simp add: Atoi_def)

lemma version2Int_edge_dots:
  assumes "s = [] \<or> hd s = CHR ''.'' \<or> last s = CHR ''.''"
  shows "version2Int ovf s = - 1"
proof -
  have "[] \<in> set (Split s)"
  proof (cases "s = []")
    case True
    then show ?thesis by simp
  next
    case False
    with assms consider "hd s = CHR ''.''" | "last s = CHR ''.''" by auto
    then show ?thesis
    proof cases
      case 1
      with False show ?thesis by (cases s) simp_all
    next
      case 2
      with False have "last (Split s) = []" by (simp add: Split_trailing_dot)
      with Split_not_Nil [of s] show ?thesis using last_in_set [of "Split s"] by auto
    qed
  qed
  with Atoi_empty have "\<exists>x\<in>set (Split s). Atoi x = None" by auto
  then show ?thesis by (rule version2Int_fail)
qed

text \<open>
  C6, as stated, has every numeric component occupy two decimal digits of the result,
  for every version string. A component above 99 or below 0 runs into its neighbours:
  "2.100.3" and "3.0.3" both give 3000300, whose leading pair of digits is 3 and not 2,
  and "2.-6.3" gives 1940300. With eleven components the first power of ten, \<open>10 ^ 20\<close>,
  is beyond \<open>int\<close>, and with the conversion of amd64 the result is the smallest \<open>int\<close>.
\<close>

theorem version2Int_components_collide:
  "version2Int (float_overflow sample_env) ''2.100.3'' = 3000300
   \<and> version2Int (float_overflow sample_env) ''3.0.3'' = 3000300
   \<and> (sint (version2Int (float_overflow sample_env) ''2.100.3'') div (100 ^ 2 * 100)) mod 100 = 3
   \<and> version2Int (float_overflow sample_env) ''2.-6.3'' = 1940300
   \<and> sint (version2Int (float_overflow sample_env) ''1.0.0.0.0.0.0.0.0.0.0'') = - 9223372036854775808"
  by (simp add: version2Int_def Atoi_def is_digit_def Pow10_int_def sample_env_def)


text \<open>
  C6, amended: \<open>version2Int\<close> returns \<open>-1\<close> whenever a component of the version is not a
  number, and so for the empty string and for a string that begins or ends with a dot.
  When all components are numbers \<open>ws\<close>, at most ten of them (so that every power of ten
  that \<open>math.Pow10\<close> yields converts to \<open>int\<close> exactly), the result is, in the 64-bit
  arithmetic of \<open>int\<close>, the value in which the components are the base-100 digits,
  most significant first, times 100 exactly when there are three. When moreover the
  components lie between 0 and 99 and are at most nine, nothing wraps, the result is that
  value as an integer, and each component occupies two decimal digits of it. The function
  is total: splitting, \<open>Atoi\<close> and the conversion do not panic, so neither does
  \<open>version2Int\<close>, on any string.
\<close>

theorem version2Int_encoding:
  "((\<exists>x\<in>set (Split s). Atoi x = None) \<longrightarrow> version2Int ovf s = - 1) \<and>
   (s = [] \<or> hd s = CHR ''.'' \<or> last s = CHR ''.'' \<longrightarrow> version2Int ovf s = - 1) \<and>
   (map Atoi (Split s) = map Some ws \<and> length ws \<le> 10 \<longrightarrow>
      version2Int ovf s = word_of_int (spec_version_value (map sint ws))) \<and>
   (map Atoi (Split s) = map Some ws \<and> length ws \<le> 9 \<and> (\<forall>w\<in>set ws. 0 \<le> sint w \<and> sint w < 100) \<longrightarrow>
      sint (version2Int ovf s) = spec_version_value (map sint ws) \<and>
      (\<forall>i<length ws.
         (sint (version2Int ovf s) div (100 ^ (length ws - 1 - i) * (if length ws = 3 then 100 else 1)))
           mod 100 = sint (ws ! i)))"
proof (intro conjI impI)
  assume "\<exists>x\<in>set (Split s). Atoi x = None"
  then show "version2Int ovf s = - 1" by (rule version2Int_fail)
next
  assume "s = [] \<or> hd s = CHR ''.'' \<or> last s = CHR ''.''"
  then show "version2Int ovf s = - 1" by (rule version2Int_edge_dots)
next
  assume "map Atoi (Split s) = map Some ws \<and> length ws \<le> 10"
  then show "version2Int ovf s = word_of_int (spec_version_value (map sint ws))"
    by (simp add: version2Int_value)
next
  assume a: "map Atoi (Split s) = map Some ws \<and> length ws \<le> 9 \<and> (\<forall>w\<in>set ws. 0 \<le> sint w \<and> sint w < 100)"
  then have v: "version2Int ovf s = word_of_int (spec_version_value (map sint ws))"
    by (simp add: version2Int_value)
  from a have cs: "\<forall>c\<in>set (map sint ws). 0 \<le> c \<and> c < 100" by auto
  from a have "length (map sint ws) \<le> 9" by simp
  from spec_version_value_bounds [OF cs this]
  have b: "- (2 ^ 63) \<le> spec_version_value (map sint ws)" "spec_version_value (map sint ws) < 2 ^ 63"
    by auto
  show s: "sint (version2Int ovf s) = spec_version_value (map sint ws)"
  proof -
    have "signed_take_bit 63 (spec_version_value (map sint ws)) = spec_version_value (map sint ws)"
      by (rule signed_take_bit_int_eq_self) (use b in simp_all)
    then show ?thesis unfolding v by (simp add: sint_sbintrunc')
  qed
  show "\<forall>i<length ws.
         (sint (version2Int ovf s) div (100 ^ (length ws - 1 - i) * (if length ws = 3 then 100 else 1)))
           mod 100 = sint (ws ! i)"
  proof (intro allI impI)
    fix i assume i: "i < length ws"
    then have "i < length (map sint ws)" by simp
    from spec_version_value_digit [OF cs this] i show
      "(sint (version2Int ovf s) div (100 ^ (length ws - 1 - i) * (if length ws = 3 then 100 else 1)))
           mod 100 = sint (ws ! i)"
      unfolding s by simp
  qed
qed

theorem version2Int_encoding_witness:
  "version2Int (\<lambda>e. 0) ''x.y.z'' = - 1 \<and>
   version2Int (\<lambda>e. 0) ''2.6.'' = - 1 \<and>
   version2Int (\<lambda>e. 0) ''2.6.3'' = 2060300 \<and>
   sint (version2Int (\<lambda>e. 0) ''2.6.3'') = 2060300 \<and>
   (sint (version2Int (\<lambda>e. 0) ''2.6.3'') div 10000) mod 100 = 6"
proof -
  have f: "\<exists>x\<in>set (Split ''x.y.z''). Atoi x = None"
    by (simp add: Atoi_def is_digit_def)
  have p: "map Atoi (Split ''2.6.3'') = map Some [2, 6, 3]"
    by (simp add: Atoi_def is_digit_def)
  have l: "length [2, 6, 3 :: goint] \<le> 10" "length [2, 6, 3 :: goint] \<le> 9" by simp_all
  have r: "\<forall>w\<in>set [2, 6, 3 :: goint]. 0 \<le> sint w \<and> sint w < 100" by simp
  have sv: "spec_version_value (map sint [2, 6, 3 :: goint]) = 2060300"
    by (simp add: spec_version_value_def lessThan_Suc numeral_3_eq_3)
  from version2Int_encoding [of "''x.y.z''" "\<lambda>e. 0" "[]"] f
  have 1: "version2Int (\<lambda>e. 0) ''x.y.z'' = - 1" by blast
  have t: "''2.6.'' = [] \<or> hd ''2.6.'' = CHR ''.'' \<or> last ''2.6.'' = CHR ''.''"
    by simp
  from version2Int_encoding [of "''2.6.''" "\<lambda>e. 0" "[]"] t
  have 0: "version2Int (\<lambda>e. 0) ''2.6.'' = - 1" by blast
  from version2Int_encoding [of "''2.6.3''" "\<lambda>e. 0" "[2, 6, 3]"] p l r
  have 2: "version2Int (\<lambda>e. 0) ''2.6.3'' = word_of_int (spec_version_value (map sint [2, 6, 3 :: goint]))"
    and 3: "sint (version2Int (\<lambda>e. 0) ''2.6.3'') = spec_version_value (map sint [2, 6, 3 :: goint])"
    and 4: "\<forall>i<length [2, 6, 3 :: goint].
         (sint (version2Int (\<lambda>e. 0) ''2.6.3'') div (100 ^ (length [2, 6, 3 :: goint] - 1 - i) * (if length [2, 6, 3 :: goint] = 3 then 100 else 1)))
           mod 100 = sint ([2, 6, 3 :: goint] ! i)"
    by blast+
  from 4 have "(1::nat) < length [2, 6, 3 :: goint] \<longrightarrow> (sint (version2Int (\<lambda>e. 0) ''2.6.3'') div (100 ^ (length [2, 6, 3 :: goint] - 1 - 1) * (if length [2, 6, 3 :: goint] = 3 then 100 else 1)))
           mod 100 = sint ([2, 6, 3 :: goint] ! 1)" by blast
  then have 5: "(sint (version2Int (\<lambda>e. 0) ''2.6.3'') div 10000) mod 100 = 6" by simp
  from 0 1 2 3 5 sv show ?thesis by simp
qed








text \<open>
  The cache that \<open>isSupportResponseAttachment\<close> returns is the cache it received: the
  function reads \<open>versionInt\<close> and has no statement that writes it.
\<close>

lemma isSupportResponseAttachment_cache_unchanged:
  "snd (isSupportResponseAttachment ovf lowest versionInt version) = versionInt"
  by (simp add: isSupportResponseAttachment_def Let_def split: option.splits)


text \<open>
  C3: the resolver is to store a successfully parsed version in the cache, under the
  version string. On "2.7.1" and the empty cache of the start of the process, the parse
  succeeds (2070100, attachments supported) and the cache still has no entry for "2.7.1"
  afterwards, so that a second call parses again.
\<close>

theorem isSupportResponseAttachment_no_memo:
  "version2Int (float_overflow sample_env) ''2.7.1'' = 2070100 \<and>
   fst (isSupportResponseAttachment (float_overflow sample_env)
          (LOWEST_VERSION_FOR_RESPONSE_ATTACHMENT sample_env) Map.empty ''2.7.1'') \<and>
   snd (isSupportResponseAttachment (float_overflow sample_env)
          (LOWEST_VERSION_FOR_RESPONSE_ATTACHMENT sample_env) Map.empty ''2.7.1'') ''2.7.1'' = None"
  by (simp add: isSupportResponseAttachment_def sample_env_def version2Int_def Atoi_def is_digit_def Pow10_int_def)

section \<open>The response frame builder\<close>

lemma length_be_bytes64 [simp]: "length (be_bytes64 w) = 8"
  by (simp add: be_bytes64_def)

lemma length_be_bytes32 [simp]: "length (be_bytes32 w) = 4"
  by (simp add: be_bytes32_def)

lemma byte_of_ucast: "unat (ucast (w :: 'a::len word) :: byte) = unat w mod 256"
proof -
  have "unat (ucast w :: byte) = take_bit 8 (unat w)"
    by (simp only: unsigned_ucast_eq) simp
  then show ?thesis by (simp add: take_bit_eq_mod)
qed

lemma unat_drop: "unat (drop_bit k (w :: 'a::len word)) = unat w div 2 ^ k"
proof -
  have "unat (drop_bit k w) = drop_bit k (unat w)"
    by (rule unat_drop_bit_eq)
  also have "\<dots> = unat w div 2 ^ k"
    by (rule drop_bit_eq_div)
  finally show ?thesis .
qed


lemma foldl_base256_acc:
  "foldl (\<lambda>a b. a * 256 + b) (a::nat) xs = a * 256 ^ length xs + foldl (\<lambda>a b. a * 256 + b) 0 xs"
proof (induction xs arbitrary: a)
  case Nil
  then show ?case by simp
next
  case (Cons x xs)
  show ?case
    using Cons.IH [of "a * 256 + x"] Cons.IH [of x] by (simp add: algebra_simps)
qed

lemma base256_digits:
  "foldl (\<lambda>a b. a * 256 + b) 0 (map (\<lambda>i. n div 256 ^ i mod 256) (rev [0..<k])) = (n::nat) mod 256 ^ k"
proof (induction k)
  case 0
  then show ?case by simp
next
  case (Suc k)
  have "foldl (\<lambda>a b. a * 256 + b) 0 (map (\<lambda>i. n div 256 ^ i mod 256) (rev [0..<Suc k]))
        = foldl (\<lambda>a b. a * 256 + b) (n div 256 ^ k mod 256) (map (\<lambda>i. n div 256 ^ i mod 256) (rev [0..<k]))"
    by simp
  also have "\<dots> = (n div 256 ^ k mod 256) * 256 ^ k + n mod 256 ^ k"
    using foldl_base256_acc [of "n div 256 ^ k mod 256" "map (\<lambda>i. n div 256 ^ i mod 256) (rev [0..<k])"] Suc.IH
    by simp
  also have "\<dots> = n mod (256 ^ k * 256)"
    by (simp only: mod_mult2_eq) (simp add: mult.commute)
  also have "\<dots> = n mod 256 ^ Suc k"
    by (simp add: mult.commute)
  finally show ?case .
qed

lemma be_nat_map: "be_nat bs = foldl (\<lambda>a b. a * 256 + b) 0 (map unat bs)"
  by (simp add: be_nat_def foldl_map)

lemma unat_byte_at: "unat (ucast (drop_bit (8 * i) (w :: 'a::len word)) :: byte) = unat w div 256 ^ i mod 256"
proof -
  have "(2::nat) ^ (8 * i) = 256 ^ i" by (simp add: power_mult)
  then show ?thesis by (simp add: byte_of_ucast unat_drop)
qed

lemma be_nat_64: "be_nat (be_bytes64 w) = unat w"
proof -
  have r: "[7, 6, 5, 4, 3, 2, 1, 0] = rev [0..<8]" by (simp add: upt_rec)
  have "be_nat (be_bytes64 w) = unat w mod 256 ^ 8"
    unfolding be_nat_map be_bytes64_def r map_map o_def unat_byte_at by (rule base256_digits)
  moreover have "unat w < 2 ^ 64" using unsigned_less [of w, where ?'a = nat] by simp
  ultimately show ?thesis by simp
qed

lemma be_nat_32: "be_nat (be_bytes32 w) = unat w"
proof -
  have r: "[3, 2, 1, 0] = rev [0..<4]" by (simp add: upt_rec)
  have "be_nat (be_bytes32 w) = unat w mod 256 ^ 4"
    unfolding be_nat_map be_bytes32_def r map_map o_def unat_byte_at by (rule base256_digits)
  moreover have "unat w < 2 ^ 32" using unsigned_less [of w, where ?'a = nat] by simp
  ultimately show ?thesis by simp
qed


lemma packResponse_unfold:
  assumes len: "16 \<le> length (header_template E h)"
  shows "packResponse E c h ret =
     (case packBody E c h (EnsureResponse ret) (Type h = PackageHeartbeat) of
        Ok encoded \<Rightarrow>
          if DEFAULT_LEN < HEADER_LENGTH + length encoded + 1
          then Err (DataTooLarge (HEADER_LENGTH + length encoded + 1) DEFAULT_LEN)
          else Ok ([header_template E h ! 0, header_template E h ! 1,
                    header_template E h ! 2 OR (SerialID h AND SERIAL_MASK),
                    (if ResponseStatus h \<noteq> 0 then ResponseStatus h else header_template E h ! 3)]
                   @ be_bytes64 (ID h) @ be_bytes32 (word_of_nat (length encoded + 1))
                   @ encoded @ [BC_NULL E])
      | Err e \<Rightarrow> Err e
      | Panic p \<Rightarrow> Panic p)"
proof -
  let ?t = "header_template E h"
  let ?b1 = "?t[2 := ?t ! 2 OR (SerialID h AND SERIAL_MASK)]"
  let ?b2 = "if ResponseStatus h \<noteq> 0 then ?b1[3 := ResponseStatus h] else ?b1"
  let ?b3 = "take 4 ?b2 @ be_bytes64 (ID h) @ drop 12 ?b2"
  from len obtain t0 t1 t2 t3 ts where t: "?t = t0 # t1 # t2 # t3 # ts" and ts: "12 \<le> length ts"
    by (auto simp: numeral_eq_Suc Suc_le_length_iff)
  let ?hd = "[t0, t1, t2 OR (SerialID h AND SERIAL_MASK),
              (if ResponseStatus h \<noteq> 0 then ResponseStatus h else t3)] @ be_bytes64 (ID h)"
  have b3: "?b3 = ?hd @ drop 8 ts"
    using t by simp
  have put: "PutUint64 ?b2 4 (ID h) = Some ?b3"
    using t ts by (simp add: PutUint64_def)
  have tk: "take HEADER_LENGTH ?b3 = ?hd @ take 4 (drop 8 ts)"
    unfolding b3 by (simp add: HEADER_LENGTH_def)
  have l4: "length (take 4 (drop 8 ts)) = 4" using ts by simp
  have lbuf: "length (encNull E (take HEADER_LENGTH ?b3 @ encoded)) = HEADER_LENGTH + length encoded + 1"
    for encoded
    unfolding tk using l4 by (simp add: encNull_def HEADER_LENGTH_def)
  have p32: "PutUint32 (encNull E (take HEADER_LENGTH ?b3 @ encoded)) 12 w
               = Some (?hd @ be_bytes32 w @ encoded @ [BC_NULL E])" for w encoded
    unfolding tk using l4 by (simp add: PutUint32_def encNull_def)
  have lb3: "\<not> length ?b3 < HEADER_LENGTH" using t ts by (simp add: HEADER_LENGTH_def)
  have unf: "packResponse E c h ret =
      (case packBody E c h (EnsureResponse ret) (Type h = PackageHeartbeat) of
         Ok encoded \<Rightarrow>
           if length (encNull E (take HEADER_LENGTH ?b3 @ encoded)) > DEFAULT_LEN
           then Err (DataTooLarge (length (encNull E (take HEADER_LENGTH ?b3 @ encoded))) DEFAULT_LEN)
           else (case PutUint32 (encNull E (take HEADER_LENGTH ?b3 @ encoded)) 12
                        (word_of_nat (length (encNull E (take HEADER_LENGTH ?b3 @ encoded)) - HEADER_LENGTH)) of
                   None \<Rightarrow> Panic IndexOutOfRange | Some frame \<Rightarrow> Ok frame)
       | Err e \<Rightarrow> Err e
       | Panic p \<Rightarrow> Panic p)"
    unfolding packResponse_def Let_def header_template_def [symmetric]
    using put lb3 t by (simp del: list_update.simps)
  show ?thesis
    unfolding unf lbuf p32 using t by (simp split: result.splits)
qed

lemma packResponse_Ok_template:
  assumes "packResponse E c h ret = Ok frame"
  shows "16 \<le> length (header_template E h)"
proof (rule ccontr)
  assume "\<not> 16 \<le> length (header_template E h)"
  then have "length (header_template E h) < 16" by simp
  then have "\<exists>p. packResponse E c h ret = Panic p"
    unfolding packResponse_def Let_def header_template_def [symmetric]
    by (simp add: PutUint64_def HEADER_LENGTH_def split: option.splits)
  with assms show False by auto
qed

lemma packResponse_Ok:
  assumes "packResponse E c h ret = Ok frame"
  shows "\<exists>encoded. packBody E c h (EnsureResponse ret) (Type h = PackageHeartbeat) = Ok encoded
           \<and> HEADER_LENGTH + length encoded + 1 \<le> DEFAULT_LEN
           \<and> frame = [header_template E h ! 0, header_template E h ! 1,
                      header_template E h ! 2 OR (SerialID h AND SERIAL_MASK),
                      (if ResponseStatus h \<noteq> 0 then ResponseStatus h else header_template E h ! 3)]
                     @ be_bytes64 (ID h) @ be_bytes32 (word_of_nat (length encoded + 1))
                     @ encoded @ [BC_NULL E]"
  using assms packResponse_unfold [OF packResponse_Ok_template [OF assms], of c ret]
  by (auto split: result.splits if_splits)


lemma packBody_Ok: "\<exists>encoded. packBody E c h (Some r) hb = Ok encoded"
  by (simp add: packBody_def Let_def split: option.splits)


text \<open>
  C5: for every header and every outcome (a response that is not a nil pointer), with
  templates of 16 bytes, \<open>packResponse\<close> encodes a body and, unless the frame exceeds the
  maximum, returns a frame, in which byte 2 is byte 2 of the template selected by the
  kind with the serialization id, masked to its low 5 bits, OR-ed in; byte 3 is the status
  when the status is not 0 and the template's byte otherwise; bytes 4 to 11 are the
  correlation id, big-endian; and bytes 12 to 15 are, big-endian, the length of the whole
  frame less 16, the encoded body and the terminator following. The first two bytes are
  the template's. Every frame that \<open>packResponse\<close> returns has these fields.
\<close>

theorem packResponse_header_layout:
  "(16 \<le> length (header_template E h) \<and> EnsureResponse ret = Some r \<longrightarrow>
      (\<exists>encoded. packBody E c h (Some r) (Type h = PackageHeartbeat) = Ok encoded \<and>
         (HEADER_LENGTH + length encoded + 1 \<le> DEFAULT_LEN \<longrightarrow>
            (\<exists>built. packResponse E c h ret = Ok built
               \<and> length built = HEADER_LENGTH + length encoded + 1
               \<and> take 2 built = take 2 (header_template E h)
               \<and> built ! 2 = header_template E h ! 2 OR (SerialID h AND 0x1f)
               \<and> built ! 3 = (if ResponseStatus h \<noteq> 0 then ResponseStatus h
                               else header_template E h ! 3)
               \<and> be_nat (take 8 (drop 4 built)) = unat (ID h)
               \<and> be_nat (take 4 (drop 12 built)) = length built - 16
               \<and> drop HEADER_LENGTH built = encoded @ [BC_NULL E]))))
   \<and> (packResponse E c h ret = Ok frame \<longrightarrow>
        HEADER_LENGTH \<le> length frame
       \<and> take 2 frame = take 2 (header_template E h)
       \<and> frame ! 2 = header_template E h ! 2 OR (SerialID h AND 0x1f)
       \<and> frame ! 3 = (if ResponseStatus h \<noteq> 0 then ResponseStatus h else header_template E h ! 3)
       \<and> be_nat (take 8 (drop 4 frame)) = unat (ID h)
       \<and> be_nat (take 4 (drop 12 frame)) = length frame - 16)"
proof -
  have layout: "HEADER_LENGTH \<le> length f
       \<and> length f = HEADER_LENGTH + length encoded + 1
       \<and> take 2 f = take 2 (header_template E h)
       \<and> f ! 2 = header_template E h ! 2 OR (SerialID h AND 0x1f)
       \<and> f ! 3 = (if ResponseStatus h \<noteq> 0 then ResponseStatus h else header_template E h ! 3)
       \<and> be_nat (take 8 (drop 4 f)) = unat (ID h)
       \<and> be_nat (take 4 (drop 12 f)) = length f - 16
       \<and> drop HEADER_LENGTH f = encoded @ [BC_NULL E]"
    if t: "16 \<le> length (header_template E h)"
      and le: "HEADER_LENGTH + length encoded + 1 \<le> DEFAULT_LEN"
      and f: "f = [header_template E h ! 0, header_template E h ! 1,
                      header_template E h ! 2 OR (SerialID h AND SERIAL_MASK),
                      (if ResponseStatus h \<noteq> 0 then ResponseStatus h else header_template E h ! 3)]
                     @ be_bytes64 (ID h) @ be_bytes32 (word_of_nat (length encoded + 1))
                     @ encoded @ [BC_NULL E]"
    for f encoded
  proof -
    from t obtain t0 t1 ts where t2: "header_template E h = t0 # t1 # ts"
      by (auto simp: numeral_eq_Suc Suc_le_length_iff)
    have 0: "length f = HEADER_LENGTH + length encoded + 1"
      unfolding f by (simp add: HEADER_LENGTH_def)
    then have 1: "HEADER_LENGTH \<le> length f" by simp
    have 2: "take 2 f = take 2 (header_template E h)"
      unfolding f using t2 by simp
    have 3: "f ! 2 = header_template E h ! 2 OR (SerialID h AND 0x1f)"
      unfolding f by (simp add: SERIAL_MASK_def)
    have 4: "f ! 3 = (if ResponseStatus h \<noteq> 0 then ResponseStatus h else header_template E h ! 3)"
      unfolding f by simp
    have "take 8 (drop 4 f) = be_bytes64 (ID h)"
      unfolding f by simp
    then have 5: "be_nat (take 8 (drop 4 f)) = unat (ID h)"
      by (simp add: be_nat_64)
    have "take 4 (drop 12 f) = be_bytes32 (word_of_nat (length encoded + 1))"
      unfolding f by simp
    then have "be_nat (take 4 (drop 12 f)) = unat (word_of_nat (length encoded + 1) :: 32 word)"
      by (simp add: be_nat_32)
    also have "\<dots> = length encoded + 1"
    proof -
      from le have "length encoded + 1 < 2 ^ 32" by (simp add: DEFAULT_LEN_def HEADER_LENGTH_def)
      then have "(length encoded + 1) mod 2 ^ LENGTH(32) = length encoded + 1" by simp
      then show ?thesis by (simp only: unat_of_nat)
    qed
    also have "\<dots> = length f - 16"
      unfolding f by simp
    finally have 6: "be_nat (take 4 (drop 12 f)) = length f - 16" .
    have 7: "drop HEADER_LENGTH f = encoded @ [BC_NULL E]"
      unfolding f by (simp add: HEADER_LENGTH_def)
    from 0 1 2 3 4 5 6 7 show ?thesis by blast
  qed
  have built: "16 \<le> length (header_template E h) \<and> EnsureResponse ret = Some r \<longrightarrow>
      (\<exists>encoded. packBody E c h (Some r) (Type h = PackageHeartbeat) = Ok encoded \<and>
         (HEADER_LENGTH + length encoded + 1 \<le> DEFAULT_LEN \<longrightarrow>
            (\<exists>built. packResponse E c h ret = Ok built
               \<and> length built = HEADER_LENGTH + length encoded + 1
               \<and> take 2 built = take 2 (header_template E h)
               \<and> built ! 2 = header_template E h ! 2 OR (SerialID h AND 0x1f)
               \<and> built ! 3 = (if ResponseStatus h \<noteq> 0 then ResponseStatus h
                               else header_template E h ! 3)
               \<and> be_nat (take 8 (drop 4 built)) = unat (ID h)
               \<and> be_nat (take 4 (drop 12 built)) = length built - 16
               \<and> drop HEADER_LENGTH built = encoded @ [BC_NULL E])))"
  proof (rule impI)
    assume a: "16 \<le> length (header_template E h) \<and> EnsureResponse ret = Some r"
    then have t: "16 \<le> length (header_template E h)" and r: "EnsureResponse ret = Some r"
      by simp_all
    from packBody_Ok obtain encoded where
      b: "packBody E c h (Some r) (Type h = PackageHeartbeat) = Ok encoded"
      by blast
    let ?f = "[header_template E h ! 0, header_template E h ! 1,
                      header_template E h ! 2 OR (SerialID h AND SERIAL_MASK),
                      (if ResponseStatus h \<noteq> 0 then ResponseStatus h else header_template E h ! 3)]
                     @ be_bytes64 (ID h) @ be_bytes32 (word_of_nat (length encoded + 1))
                     @ encoded @ [BC_NULL E]"
    have "\<exists>built. packResponse E c h ret = Ok built
               \<and> length built = HEADER_LENGTH + length encoded + 1
               \<and> take 2 built = take 2 (header_template E h)
               \<and> built ! 2 = header_template E h ! 2 OR (SerialID h AND 0x1f)
               \<and> built ! 3 = (if ResponseStatus h \<noteq> 0 then ResponseStatus h
                               else header_template E h ! 3)
               \<and> be_nat (take 8 (drop 4 built)) = unat (ID h)
               \<and> be_nat (take 4 (drop 12 built)) = length built - 16
               \<and> drop HEADER_LENGTH built = encoded @ [BC_NULL E]"
      if le: "HEADER_LENGTH + length encoded + 1 \<le> DEFAULT_LEN"
    proof -
      from packResponse_unfold [OF t, of c ret] r b le
      have p: "packResponse E c h ret = Ok ?f" by simp
      from layout [OF t le refl] p show ?thesis by blast
    qed
    with b show "\<exists>encoded. packBody E c h (Some r) (Type h = PackageHeartbeat) = Ok encoded \<and>
         (HEADER_LENGTH + length encoded + 1 \<le> DEFAULT_LEN \<longrightarrow>
            (\<exists>built. packResponse E c h ret = Ok built
               \<and> length built = HEADER_LENGTH + length encoded + 1
               \<and> take 2 built = take 2 (header_template E h)
               \<and> built ! 2 = header_template E h ! 2 OR (SerialID h AND 0x1f)
               \<and> built ! 3 = (if ResponseStatus h \<noteq> 0 then ResponseStatus h
                               else header_template E h ! 3)
               \<and> be_nat (take 8 (drop 4 built)) = unat (ID h)
               \<and> be_nat (take 4 (drop 12 built)) = length built - 16
               \<and> drop HEADER_LENGTH built = encoded @ [BC_NULL E]))"
      by blast
  qed
  have returned: "packResponse E c h ret = Ok frame \<longrightarrow>
      (HEADER_LENGTH \<le> length frame
       \<and> take 2 frame = take 2 (header_template E h)
       \<and> frame ! 2 = header_template E h ! 2 OR (SerialID h AND 0x1f)
       \<and> frame ! 3 = (if ResponseStatus h \<noteq> 0 then ResponseStatus h else header_template E h ! 3)
       \<and> be_nat (take 8 (drop 4 frame)) = unat (ID h)
       \<and> be_nat (take 4 (drop 12 frame)) = length frame - 16)"
  proof (rule impI)
    assume a: "packResponse E c h ret = Ok frame"
    from packResponse_Ok [OF a] obtain encoded where
      le: "HEADER_LENGTH + length encoded + 1 \<le> DEFAULT_LEN"
      and f: "frame = [header_template E h ! 0, header_template E h ! 1,
                      header_template E h ! 2 OR (SerialID h AND SERIAL_MASK),
                      (if ResponseStatus h \<noteq> 0 then ResponseStatus h else header_template E h ! 3)]
                     @ be_bytes64 (ID h) @ be_bytes32 (word_of_nat (length encoded + 1))
                     @ encoded @ [BC_NULL E]"
      by blast
    from layout [OF packResponse_Ok_template [OF a] le f]
    show "HEADER_LENGTH \<le> length frame
       \<and> take 2 frame = take 2 (header_template E h)
       \<and> frame ! 2 = header_template E h ! 2 OR (SerialID h AND 0x1f)
       \<and> frame ! 3 = (if ResponseStatus h \<noteq> 0 then ResponseStatus h else header_template E h ! 3)
       \<and> be_nat (take 8 (drop 4 frame)) = unat (ID h)
       \<and> be_nat (take 4 (drop 12 frame)) = length frame - 16"
      by blast
  qed
  from built returned show ?thesis by (rule conjI)
qed


lemmas pack_eval = packResponse_def packBody_def sample_env_def sample_header_def sample_encode_def
   isSupportResponseAttachment_def attachment_def HEADER_LENGTH_def SERIAL_MASK_def Response_OK_def
   DEFAULT_LEN_def PutUint64_def PutUint32_def be_bytes64_def be_bytes32_def encNull_def
   NewResponse_def

theorem packResponse_header_layout_witness:
  "\<exists>built. packResponse sample_env Map.empty sample_header (BValue (VInt32 7)) = Ok built
     \<and> length built = 27
     \<and> take 2 built = [0xda, 0xbb]
     \<and> built ! 2 = 2
     \<and> built ! 3 = 20
     \<and> be_nat (take 8 (drop 4 built)) = 0x0102030405060708
     \<and> be_nat (take 4 (drop 12 built)) = 11
     \<and> drop 16 built = [73, 0, 0, 0, 1, 73, 0, 0, 0, 7, 78]"
proof -
  let ?r = "NewResponse (VInt32 7) None None"
  have t: "16 \<le> length (header_template sample_env sample_header)"
    by (simp add: header_template_def sample_env_def sample_header_def)
  have r: "EnsureResponse (BValue (VInt32 7)) = Some ?r"
    by simp
  have b: "packBody sample_env Map.empty sample_header (Some ?r) (Type sample_header = PackageHeartbeat)
             = Ok [73, 0, 0, 0, 1, 73, 0, 0, 0, 7]"
    by (simp add: packBody_def sample_env_def sample_header_def sample_encode_def be_bytes32_def
        Response_OK_def NewResponse_def isSupportResponseAttachment_def attachment_def)
  from packResponse_header_layout [of sample_env sample_header "BValue (VInt32 7)" ?r Map.empty "[]"] t r
  obtain encoded where
    e: "packBody sample_env Map.empty sample_header (Some ?r) (Type sample_header = PackageHeartbeat)
          = Ok encoded"
    and f: "HEADER_LENGTH + length encoded + 1 \<le> DEFAULT_LEN \<longrightarrow>
            (\<exists>built. packResponse sample_env Map.empty sample_header (BValue (VInt32 7)) = Ok built
               \<and> length built = HEADER_LENGTH + length encoded + 1
               \<and> take 2 built = take 2 (header_template sample_env sample_header)
               \<and> built ! 2 = header_template sample_env sample_header ! 2 OR (SerialID sample_header AND 0x1f)
               \<and> built ! 3 = (if ResponseStatus sample_header \<noteq> 0 then ResponseStatus sample_header
                               else header_template sample_env sample_header ! 3)
               \<and> be_nat (take 8 (drop 4 built)) = unat (ID sample_header)
               \<and> be_nat (take 4 (drop 12 built)) = length built - 16
               \<and> drop HEADER_LENGTH built = encoded @ [BC_NULL sample_env])"
    by blast
  from e b have enc: "encoded = [73, 0, 0, 0, 1, 73, 0, 0, 0, 7]" by simp
  have le: "HEADER_LENGTH + length encoded + 1 \<le> DEFAULT_LEN"
    unfolding enc by (simp add: HEADER_LENGTH_def DEFAULT_LEN_def)
  from f le obtain built where
    p: "packResponse sample_env Map.empty sample_header (BValue (VInt32 7)) = Ok built"
    and l: "length built = HEADER_LENGTH + length encoded + 1"
    and 1: "take 2 built = take 2 (header_template sample_env sample_header)"
    and 2: "built ! 2 = header_template sample_env sample_header ! 2 OR (SerialID sample_header AND 0x1f)"
    and 3: "built ! 3 = (if ResponseStatus sample_header \<noteq> 0 then ResponseStatus sample_header
                               else header_template sample_env sample_header ! 3)"
    and 4: "be_nat (take 8 (drop 4 built)) = unat (ID sample_header)"
    and 5: "be_nat (take 4 (drop 12 built)) = length built - 16"
    and 6: "drop HEADER_LENGTH built = encoded @ [BC_NULL sample_env]"
    by blast
  have "length built = 27" using l enc by (simp add: HEADER_LENGTH_def)
  moreover have "take 2 built = [0xda, 0xbb]"
    using 1 by (simp add: header_template_def sample_env_def sample_header_def)
  moreover have "built ! 2 = 2"
    using 2 by (simp add: header_template_def sample_env_def sample_header_def)
  moreover have "built ! 3 = 20"
    using 3 by (simp add: header_template_def sample_env_def sample_header_def)
  moreover have "be_nat (take 8 (drop 4 built)) = 0x0102030405060708"
    using 4 by (simp add: sample_header_def)
  moreover have "be_nat (take 4 (drop 12 built)) = 11"
    using 5 l enc by (simp add: HEADER_LENGTH_def)
  moreover have "drop 16 built = [73, 0, 0, 0, 1, 73, 0, 0, 0, 7, 78]"
    using 6 enc by (simp add: HEADER_LENGTH_def sample_env_def)
  ultimately show ?thesis using p by blast
qed

text \<open>
  C7: when the assembled frame (the 16 bytes of the header, the encoded body and the
  terminator) is longer than 8 MiB, \<open>packResponse\<close> returns an error that carries the
  actual length and the maximum, and no bytes. A frame that is returned is within the
  maximum and holds the whole encoded body and the terminator after its header.
\<close>

theorem packResponse_oversize:
  "(16 \<le> length (header_template E h)
      \<and> packBody E c h (EnsureResponse ret) (Type h = PackageHeartbeat) = Ok encoded
      \<and> DEFAULT_LEN < HEADER_LENGTH + length encoded + 1
    \<longrightarrow> packResponse E c h ret
          = Err (DataTooLarge (HEADER_LENGTH + length encoded + 1) DEFAULT_LEN))
   \<and> (packResponse E c h ret = Ok frame
    \<longrightarrow> length frame \<le> DEFAULT_LEN
        \<and> (\<exists>enc. packBody E c h (EnsureResponse ret) (Type h = PackageHeartbeat) = Ok enc
                  \<and> length frame = HEADER_LENGTH + length enc + 1
                  \<and> drop HEADER_LENGTH frame = enc @ [BC_NULL E]))"
proof (intro conjI impI)
  assume a: "16 \<le> length (header_template E h)
      \<and> packBody E c h (EnsureResponse ret) (Type h = PackageHeartbeat) = Ok encoded
      \<and> DEFAULT_LEN < HEADER_LENGTH + length encoded + 1"
  then have "16 \<le> length (header_template E h)" by simp
  from packResponse_unfold [OF this, of c ret] a
  show "packResponse E c h ret = Err (DataTooLarge (HEADER_LENGTH + length encoded + 1) DEFAULT_LEN)"
    by simp
next
  assume a: "packResponse E c h ret = Ok frame"
  from packResponse_Ok [OF a] obtain enc where
    b: "packBody E c h (EnsureResponse ret) (Type h = PackageHeartbeat) = Ok enc"
    and le: "HEADER_LENGTH + length enc + 1 \<le> DEFAULT_LEN"
    and frame: "frame = [header_template E h ! 0, header_template E h ! 1,
                      header_template E h ! 2 OR (SerialID h AND SERIAL_MASK),
                      (if ResponseStatus h \<noteq> 0 then ResponseStatus h else header_template E h ! 3)]
                     @ be_bytes64 (ID h) @ be_bytes32 (word_of_nat (length enc + 1))
                     @ enc @ [BC_NULL E]"
    by blast
  have l: "length frame = HEADER_LENGTH + length enc + 1"
    unfolding frame by (simp add: HEADER_LENGTH_def)
  with le show "length frame \<le> DEFAULT_LEN" by simp
  have "drop HEADER_LENGTH frame = enc @ [BC_NULL E]"
    unfolding frame by (simp add: HEADER_LENGTH_def)
  with b l show "\<exists>enc. packBody E c h (EnsureResponse ret) (Type h = PackageHeartbeat) = Ok enc
                  \<and> length frame = HEADER_LENGTH + length enc + 1
                  \<and> drop HEADER_LENGTH frame = enc @ [BC_NULL E]"
    by blast
qed

theorem packResponse_oversize_witness:
  "packResponse big_env Map.empty sample_header (BValue (VInt32 7))
     = Err (DataTooLarge 16777233 8388608)
   \<and> length [218, 187, 2, 20, 1, 2, 3, 4, 5, 6, 7, 8, 0, 0, 0, 11, 73, 0, 0, 0, 1, 73, 0, 0, 0, 7, 78 :: byte] \<le> DEFAULT_LEN
   \<and> drop 16 [218, 187, 2, 20, 1, 2, 3, 4, 5, 6, 7, 8, 0, 0, 0, 11, 73, 0, 0, 0, 1, 73, 0, 0, 0, 7, 78 :: byte]
       = [73, 0, 0, 0, 1, 73, 0, 0, 0, 7] @ [BC_NULL sample_env]"
proof -
  have t: "16 \<le> length (header_template big_env sample_header)"
    by (simp add: header_template_def big_env_def sample_env_def sample_header_def)
  have b: "packBody big_env Map.empty sample_header (EnsureResponse (BValue (VInt32 7)))
             (Type sample_header = PackageHeartbeat)
           = Ok (replicate 8388608 0 @ replicate 8388608 0)"
    by (simp add: packBody_def big_env_def sample_env_def sample_header_def Response_OK_def
        NewResponse_def isSupportResponseAttachment_def attachment_def)
  have l: "DEFAULT_LEN < HEADER_LENGTH + length (replicate 8388608 (0::byte) @ replicate 8388608 0) + 1"
    by (simp add: DEFAULT_LEN_def HEADER_LENGTH_def)
  have p: "packResponse sample_env Map.empty sample_header (BValue (VInt32 7))
     = Ok [218, 187, 2, 20, 1, 2, 3, 4, 5, 6, 7, 8, 0, 0, 0, 11, 73, 0, 0, 0, 1, 73, 0, 0, 0, 7, 78]"
    by (simp add: pack_eval)
  from packResponse_oversize [of big_env sample_header Map.empty "BValue (VInt32 7)"
      "replicate 8388608 0 @ replicate 8388608 0"] t b l
  have 1: "packResponse big_env Map.empty sample_header (BValue (VInt32 7))
     = Err (DataTooLarge (HEADER_LENGTH + length (replicate 8388608 (0::byte) @ replicate 8388608 0) + 1) DEFAULT_LEN)"
    by blast
  from packResponse_oversize [of sample_env sample_header Map.empty "BValue (VInt32 7)" "[]"
      "[218, 187, 2, 20, 1, 2, 3, 4, 5, 6, 7, 8, 0, 0, 0, 11, 73, 0, 0, 0, 1, 73, 0, 0, 0, 7, 78]"] p
  have 2: "length [218, 187, 2, 20, 1, 2, 3, 4, 5, 6, 7, 8, 0, 0, 0, 11, 73, 0, 0, 0, 1, 73, 0, 0, 0, 7, 78 :: byte] \<le> DEFAULT_LEN"
    by blast
  from 1 2 show ?thesis
    by (simp add: DEFAULT_LEN_def HEADER_LENGTH_def sample_env_def)
qed


section \<open>The value coercion layer\<close>

lemma CopySlice_loop_ok:
  assumes "AssignableTo (type_elem it) (type_elem ot)" and "slice_elems v = xs"
    and "st a = VSlice t (Some ys)" and "length ys = length xs" and "i + n = length xs"
  shows "CopySlice_loop st (RConst it v) ot a i n
           = (Ok (), st(a := VSlice t (Some (take i ys @ drop i xs))))"
  using assms
proof (induction n arbitrary: st i ys)
  case 0
  then show ?case by (simp add: fun_upd_idem)
next
  case (Suc n)
  from Suc.prems have i: "i < length xs" "i < length ys" by simp_all
  define st' where "st' = st(a := VSlice t (Some (ys[i := xs ! i])))"
  have s: "set_index st a i (xs ! i) = st'"
    using Suc.prems by (simp add: set_index_def st'_def)
  have "CopySlice_loop st' (RConst it v) ot a (Suc i) n
          = (Ok (), st'(a := VSlice t (Some (take (Suc i) (ys[i := xs ! i]) @ drop (Suc i) xs))))"
    by (rule Suc.IH) (use Suc.prems in \<open>simp_all add: st'_def\<close>)
  moreover have "take (Suc i) (ys[i := xs ! i]) @ drop (Suc i) xs = take i ys @ drop i xs"
    using i by (simp add: take_Suc_conv_app_nth Cons_nth_drop_Suc)
  moreover have "st'(a := w) = st(a := w)" for w
    by (simp add: st'_def)
  ultimately have "CopySlice_loop st' (RConst it v) ot a (Suc i) n
          = (Ok (), st(a := VSlice t (Some (take i ys @ drop i xs))))"
    by simp
  with Suc.prems(1,2) i s show ?case by (simp add: fun_upd_def)
qed

lemma CopySlice_loop_fail:
  "\<not> AssignableTo (type_elem it) (type_elem ot) \<Longrightarrow> i < length (slice_elems v) \<Longrightarrow>
   CopySlice_loop st (RConst it v) ot a i (Suc n) = (Err (ElemNotAssignable (type_elem it) ot), st)"
  by simp

lemma CopySlice_to_slice:
  assumes "kind_of ity = KSlice" and "v = VSlice it (Some xs)"
    and "UnpackPtr st outSlice = RVar (TSlice oet) a"
  shows "CopySlice st (RConst ity v) outSlice =
     (if xs = [] \<or> AssignableTo (type_elem ity) oet
      then (Ok (), st(a := VSlice oet (Some xs)))
      else (Err (ElemNotAssignable (type_elem ity) (TSlice oet)),
            st(a := VSlice oet (Some (replicate (length xs) (zero oet))))))"
proof -
  let ?st1 = "st(a := VSlice oet (Some (replicate (length xs) (zero oet))))"
  have c: "CopySlice st (RConst ity v) outSlice
             = CopySlice_loop ?st1 (RConst ity v) (TSlice oet) a 0 (length xs)"
    using assms by (simp add: CopySlice_def IsNil_def Let_def)
  show ?thesis
  proof (cases "AssignableTo (type_elem ity) oet")
    case True
    have "CopySlice_loop ?st1 (RConst ity v) (TSlice oet) a 0 (length xs)
            = (Ok (), ?st1(a := VSlice oet (Some (take 0 (replicate (length xs) (zero oet)) @ drop 0 xs))))"
      by (rule CopySlice_loop_ok) (use True assms(2) in simp_all)
    with c True show ?thesis by simp
  next
    case False
    show ?thesis
    proof (cases xs)
      case Nil
      with c show ?thesis by simp
    next
      case (Cons x xs')
      then have "CopySlice_loop ?st1 (RConst ity v) (TSlice oet) a 0 (length xs)
                   = (Err (ElemNotAssignable (type_elem ity) (TSlice oet)), ?st1)"
        using False assms(2) by simp
      with c False Cons show ?thesis by simp
    qed
  qed
qed

text \<open>
  When the input is the very variable that the destination leads to, the new slice of
  zero values has replaced the input before the first element is read, and zero values
  are what the loop copies.
\<close>

lemma CopySlice_aliased_input:
  "CopySlice (\<lambda>a. VSlice TInt32 (Some [VInt32 1, VInt32 2, VInt32 3]))
       (RVar (TSlice TInt32) 0) (RVar (TSlice TInt32) 0)
     = (Ok (), (\<lambda>a. VSlice TInt32 (Some [VInt32 1, VInt32 2, VInt32 3]))
                 (0 := VSlice TInt32 (Some [VInt32 0, VInt32 0, VInt32 0])))"
  by (simp add: CopySlice_def IsNil_def AssignableTo_def set_index_def numeral_3_eq_3)

text \<open>
  C9, as stated, has \<open>CopySlice\<close> panic for every input that is a slice when the
  destination is not of a slice type. A nil slice is a slice, and for it \<open>CopySlice\<close>
  returns the error "@in is nil" before it looks at the destination.
\<close>

theorem CopySlice_nil_slice_returns_error:
  "rkind (ValueOf (VSlice TInt32 None)) = KSlice
   \<and> UnpackPtr (\<lambda>a. VInt32 0) (ValueOf (VPtr TInt32 (Some 0))) = RVar TInt32 0
   \<and> CopySlice (\<lambda>a. VInt32 0) (ValueOf (VSlice TInt32 None)) (ValueOf (VPtr TInt32 (Some 0)))
       = (Err InIsNil, (\<lambda>a. VInt32 0))"
  by (simp add: ValueOf_def CopySlice_def IsNil_def)


text \<open>
  C9, amended: when the input is a slice that is not nil and the destination, after the
  pointers (none of them nil) are dereferenced, is a value of a type that is not a slice
  type, \<open>CopySlice\<close> panics in \<open>reflect.MakeSlice\<close>; it does not return an error, the
  destination having no check with an error branch. When the input is a nil slice,
  \<open>CopySlice\<close> returns the error "@in is nil" and does not panic.
\<close>

theorem CopySlice_non_slice_destination_panics:
  assumes "rkind inSlice = KSlice"
    and "UnpackPtr st outSlice \<noteq> RInvalid"
    and "rkind (UnpackPtr st outSlice) \<noteq> KSlice"
  shows "(\<not> is_nil_val (rget st inSlice) \<longrightarrow>
            CopySlice st inSlice outSlice = (Panic MakeSliceOfNonSlice, st))
       \<and> (is_nil_val (rget st inSlice) \<longrightarrow>
            CopySlice st inSlice outSlice = (Err InIsNil, st))"
  using assms by (cases "UnpackPtr st outSlice") (simp_all add: CopySlice_def IsNil_def Let_def)

theorem CopySlice_non_slice_destination_panics_witness:
  "CopySlice (\<lambda>a. VString []) (ValueOf (VSlice TInt32 (Some [VInt32 1, VInt32 2])))
       (ValueOf (VPtr TString (Some 0)))
     = (Panic MakeSliceOfNonSlice, (\<lambda>a. VString []))
   \<and> CopySlice (\<lambda>a. VString []) (ValueOf (VSlice TString None))
       (ValueOf (VPtr TString (Some 0)))
     = (Err InIsNil, (\<lambda>a. VString []))"
proof -
  have u: "UnpackPtr (\<lambda>a. VString []) (ValueOf (VPtr TString (Some 0))) = RVar TString 0"
    by (simp add: ValueOf_def)
  have 3: "UnpackPtr (\<lambda>a. VString []) (ValueOf (VPtr TString (Some 0))) \<noteq> RInvalid"
    by (simp add: u)
  have 4: "rkind (UnpackPtr (\<lambda>a. VString []) (ValueOf (VPtr TString (Some 0)))) \<noteq> KSlice"
    by (simp add: u)
  have k1: "rkind (ValueOf (VSlice TInt32 (Some [VInt32 1, VInt32 2]))) = KSlice"
    by (simp add: ValueOf_def)
  have n1: "\<not> is_nil_val (rget (\<lambda>a. VString []) (ValueOf (VSlice TInt32 (Some [VInt32 1, VInt32 2]))))"
    by (simp add: ValueOf_def)
  have k2: "rkind (ValueOf (VSlice TString None)) = KSlice"
    by (simp add: ValueOf_def)
  have n2: "is_nil_val (rget (\<lambda>a. VString []) (ValueOf (VSlice TString None)))"
    by (simp add: ValueOf_def)
  from CopySlice_non_slice_destination_panics [OF k1 3 4] n1
  have a: "CopySlice (\<lambda>a. VString []) (ValueOf (VSlice TInt32 (Some [VInt32 1, VInt32 2])))
       (ValueOf (VPtr TString (Some 0))) = (Panic MakeSliceOfNonSlice, (\<lambda>a. VString []))"
    by blast
  from CopySlice_non_slice_destination_panics [OF k2 3 4] n2
  have b: "CopySlice (\<lambda>a. VString []) (ValueOf (VSlice TString None))
       (ValueOf (VPtr TString (Some 0))) = (Err InIsNil, (\<lambda>a. VString []))"
    by blast
  from a b show ?thesis by (rule conjI)
qed


text \<open>
  C4, as stated, has the coercion layer never panic on a sequence-shaped input and a
  non-nil pointer destination. It panics on a slice of three integers and a pointer to a
  string, and on an array and a pointer to a slice.
\<close>

theorem ReflectResponse_sequence_panics:
  "ReflectResponse (\<lambda>a. VString []) (VSlice TInt32 (Some [VInt32 1, VInt32 2, VInt32 3]))
       (VPtr TString (Some 0))
     = (Panic MakeSliceOfNonSlice, (\<lambda>a. VString []))
   \<and> ReflectResponse (\<lambda>a. VSlice TInt32 None) (VArray TInt32 [VInt32 1, VInt32 2, VInt32 3])
       (VPtr (TSlice TInt32) (Some 0))
     = (Panic (IsNilOfKind KArray), (\<lambda>a. VSlice TInt32 None))"
  by (simp add: ReflectResponse_def EnsurePackValue_def ValueOf_def CopySlice_def IsNil_def)


text \<open>
  C4, amended: for every input that is a slice and not nil, and every pointer
  destination, other than a pointer to \<open>interface{}\<close>, that leads through pointers that
  are not nil to a variable of a slice type, \<open>ReflectResponse\<close> stores a new slice of the
  length of the source in that variable; it then assigns the elements in order and
  succeeds when the source is empty or its element type is assignable to the element
  type of the destination, and otherwise fails with an error that names the element type
  of the source, leaving the new slice of zero values. It does not panic.
\<close>

theorem ReflectResponse_slice:
  assumes "in_v = VSlice iet (Some xs)"
    and "out = VPtr t p" and "t \<noteq> TInterface"
    and "UnpackPtr st (ValueOf out) = RVar (TSlice oet) a"
  shows "(xs = [] \<or> AssignableTo iet oet \<longrightarrow>
            ReflectResponse st in_v out = (Ok (), st(a := VSlice oet (Some xs))))
       \<and> (\<not> (xs = [] \<or> AssignableTo iet oet) \<longrightarrow>
            (\<exists>named. ReflectResponse st in_v out =
               (Err (ElemNotAssignable iet named),
                st(a := VSlice oet (Some (replicate (length xs) (zero oet)))))))"
proof -
  have r: "ReflectResponse st in_v out = CopySlice st (RConst (TSlice iet) in_v) (ValueOf out)"
    using assms(1-3) by (simp add: ReflectResponse_def EnsurePackValue_def ValueOf_def)
  have "CopySlice st (RConst (TSlice iet) in_v) (ValueOf out) =
     (if xs = [] \<or> AssignableTo (type_elem (TSlice iet)) oet
      then (Ok (), st(a := VSlice oet (Some xs)))
      else (Err (ElemNotAssignable (type_elem (TSlice iet)) (TSlice oet)),
            st(a := VSlice oet (Some (replicate (length xs) (zero oet))))))"
    by (rule CopySlice_to_slice) (use assms in simp_all)
  with r show ?thesis by auto
qed

theorem ReflectResponse_slice_witness:
  "ReflectResponse (\<lambda>a. VSlice TInt32 None) (VSlice TInt32 (Some [VInt32 1, VInt32 2, VInt32 3]))
       (VPtr (TSlice TInt32) (Some 0))
     = (Ok (), (\<lambda>a. VSlice TInt32 None)(0 := VSlice TInt32 (Some [VInt32 1, VInt32 2, VInt32 3])))
   \<and> (\<exists>named. ReflectResponse (\<lambda>a. VSlice TInt64 None) (VSlice TInt32 (Some [VInt32 1, VInt32 2, VInt32 3]))
       (VPtr (TSlice TInt64) (Some 0))
     = (Err (ElemNotAssignable TInt32 named),
        (\<lambda>a. VSlice TInt64 None)(0 := VSlice TInt64 (Some [VInt64 0, VInt64 0, VInt64 0]))))"
proof -
  have u1: "UnpackPtr (\<lambda>a. VSlice TInt32 None) (ValueOf (VPtr (TSlice TInt32) (Some 0))) = RVar (TSlice TInt32) 0"
    by (simp add: ValueOf_def)
  have u2: "UnpackPtr (\<lambda>a. VSlice TInt64 None) (ValueOf (VPtr (TSlice TInt64) (Some 0))) = RVar (TSlice TInt64) 0"
    by (simp add: ValueOf_def)
  have t1: "TSlice TInt32 \<noteq> TInterface" and t2: "TSlice TInt64 \<noteq> TInterface" by simp_all
  have a1: "[VInt32 1, VInt32 2, VInt32 3] = [] \<or> AssignableTo TInt32 TInt32"
    by (simp add: AssignableTo_def)
  have a2: "\<not> ([VInt32 1, VInt32 2, VInt32 3] = [] \<or> AssignableTo TInt32 TInt64)"
    by (simp add: AssignableTo_def)
  from ReflectResponse_slice [OF refl refl t1 u1] a1
  have 1: "ReflectResponse (\<lambda>a. VSlice TInt32 None) (VSlice TInt32 (Some [VInt32 1, VInt32 2, VInt32 3]))
       (VPtr (TSlice TInt32) (Some 0))
     = (Ok (), (\<lambda>a. VSlice TInt32 None)(0 := VSlice TInt32 (Some [VInt32 1, VInt32 2, VInt32 3])))"
    by blast
  from ReflectResponse_slice [OF refl refl t2 u2] a2
  have 2: "\<exists>named. ReflectResponse (\<lambda>a. VSlice TInt64 None) (VSlice TInt32 (Some [VInt32 1, VInt32 2, VInt32 3]))
       (VPtr (TSlice TInt64) (Some 0))
     = (Err (ElemNotAssignable TInt32 named),
        (\<lambda>a. VSlice TInt64 None)(0 := VSlice TInt64 (Some (replicate (length [VInt32 1, VInt32 2, VInt32 3]) (zero TInt64)))))"
    by blast
  from 1 2 show ?thesis by (simp add: numeral_3_eq_3)
qed


text \<open>
  A copyable value is copied unchanged into a variable of its own type, given by a
  pointer.
\<close>

lemma TypeOf_not_interface: "TypeOf v \<noteq> Some TInterface"
proof (cases v)
  case (VError e)
  then show ?thesis by (cases e) simp_all
qed simp_all

lemma map_update_fresh:
  "k \<notin> fst ` set acc \<Longrightarrow> map_update k v acc = acc @ [(k, v)]"
  by (induction acc) auto

lemma fold_map_update_distinct:
  "distinct (map fst (acc @ ps)) \<Longrightarrow>
   fold (\<lambda>p. map_update (fst p) (snd p)) ps acc = acc @ ps"
proof (induction ps arbitrary: acc)
  case Nil
  then show ?case by simp
next
  case (Cons p ps)
  from Cons.prems have f: "fst p \<notin> fst ` set acc" by auto
  have u: "map_update (fst p) (snd p) acc = acc @ [p]"
    using map_update_fresh [OF f, of "snd p"] by simp
  from Cons.prems have "distinct (map fst ((acc @ [p]) @ ps))" by simp
  from Cons.IH [OF this] u show ?case by simp
qed

lemma CopyMap_loop_ok:
  assumes "AssignableTo ikt okt" and "AssignableTo ivt ovt" and "st a = VMap k v (Some acc)"
  shows "CopyMap_loop st ikt ivt okt ovt a ps
           = (Ok (), st(a := VMap k v (Some (fold (\<lambda>p. map_update (fst p) (snd p)) ps acc))))"
  using assms
proof (induction ps arbitrary: st acc)
  case Nil
  then show ?case by (simp add: fun_upd_idem)
next
  case (Cons p ps)
  define st' where "st' = st(a := VMap k v (Some (map_update (fst p) (snd p) acc)))"
  have s: "SetMapIndex st a (fst p) (snd p) = st'"
    using Cons.prems by (simp add: SetMapIndex_def st'_def)
  have "CopyMap_loop st' ikt ivt okt ovt a ps
          = (Ok (), st'(a := VMap k v (Some (fold (\<lambda>p. map_update (fst p) (snd p)) ps
                                               (map_update (fst p) (snd p) acc)))))"
    by (rule Cons.IH) (use Cons.prems in \<open>simp_all add: st'_def\<close>)
  moreover have "st'(a := w) = st(a := w)" for w
    by (simp add: st'_def)
  ultimately have "CopyMap_loop st' ikt ivt okt ovt a ps
          = (Ok (), st(a := VMap k v (Some (fold (\<lambda>p. map_update (fst p) (snd p)) ps
                                               (map_update (fst p) (snd p) acc)))))"
    by simp
  with Cons.prems(1,2) s show ?case by (simp add: fun_upd_def)
qed

lemma CopyMap_same_type:
  assumes "distinct (map fst m)"
  shows "CopyMap st (RConst (TMap kt vt) (VMap kt vt (Some m)))
                    (RConst (TPtr (TMap kt vt)) (VPtr (TMap kt vt) (Some a)))
           = (Ok (), st(a := VMap kt vt (Some m)))"
proof -
  let ?st1 = "st(a := VMap kt vt (Some []))"
  have sv: "SetValue st (RConst (TPtr (TMap kt vt)) (VPtr (TMap kt vt) (Some a)))
                        (RConst (TMap kt vt) (VMap kt vt (Some [])))
              = (Ok (), ?st1)"
    by (simp add: SetValue_def AssignableTo_def)
  have up: "UnpackPtrValue ?st1 (RConst (TPtr (TMap kt vt)) (VPtr (TMap kt vt) (Some a)))
              = RVar (TMap kt vt) a"
    by (simp add: UnpackPtrValue_def)
  have c: "CopyMap st (RConst (TMap kt vt) (VMap kt vt (Some m)))
                    (RConst (TPtr (TMap kt vt)) (VPtr (TMap kt vt) (Some a)))
           = CopyMap_loop ?st1 kt vt kt vt a m"
    by (simp add: CopyMap_def IsNil_def CanInterface_def Let_def sv up)
  have "CopyMap_loop ?st1 kt vt kt vt a m
          = (Ok (), ?st1(a := VMap kt vt (Some (fold (\<lambda>p. map_update (fst p) (snd p)) m []))))"
    by (rule CopyMap_loop_ok) (simp_all add: AssignableTo_def)
  moreover have "fold (\<lambda>p. map_update (fst p) (snd p)) m [] = [] @ m"
    by (rule fold_map_update_distinct) (use assms in simp)
  ultimately show ?thesis using c by simp
qed

lemma ReflectResponse_same_type:
  assumes "TypeOf v = Some T" and "copyable v"
  shows "ReflectResponse st v (VPtr T (Some a)) = (Ok (), st(a := v))"
proof -
  have T: "T \<noteq> TInterface" using assms(1) TypeOf_not_interface [of v] by auto
  have sv: "SetValue st (RConst (TPtr T) (VPtr T (Some a))) (RConst T v) = (Ok (), st(a := v))"
    by (simp add: SetValue_def AssignableTo_def)
  show ?thesis
  proof (cases v)
    case VNil
    with assms show ?thesis by simp
  next
    case (VSlice et xs)
    with assms obtain ys where ys: "xs = Some ys" by (cases xs) auto
    have "CopySlice st (RConst (TSlice et) (VSlice et (Some ys)))
                       (RConst (TPtr (TSlice et)) (VPtr (TSlice et) (Some a)))
            = (if ys = [] \<or> AssignableTo (type_elem (TSlice et)) et
               then (Ok (), st(a := VSlice et (Some ys)))
               else (Err (ElemNotAssignable (type_elem (TSlice et)) (TSlice et)),
                     st(a := VSlice et (Some (replicate (length ys) (zero et))))))"
      by (rule CopySlice_to_slice) simp_all
    moreover from assms(1) VSlice have "T = TSlice et" by simp
    ultimately show ?thesis
      unfolding VSlice ys \<open>T = TSlice et\<close>
      by (simp add: ReflectResponse_def EnsurePackValue_def ValueOf_def AssignableTo_def)
  next
    case (VArray et xs)
    with assms show ?thesis by simp
  next
    case (VMap kt vt m)
    with assms obtain ps where ps: "m = Some ps" and d: "distinct (map fst ps)"
      by (cases m) auto
    from assms(1) VMap have "T = TMap kt vt" by simp
    with CopyMap_same_type [OF d, of st kt vt a] show ?thesis
      unfolding VMap ps \<open>T = TMap kt vt\<close>
      by (simp add: ReflectResponse_def EnsurePackValue_def ValueOf_def)
  next
    case (VError e)
    with assms(1) sv show ?thesis
      by (cases e) (auto simp: ReflectResponse_def EnsurePackValue_def ValueOf_def)
  qed (use assms(1) sv T in \<open>auto simp: ReflectResponse_def EnsurePackValue_def ValueOf_def\<close>)
qed



section \<open>The response frame parser\<close>

text \<open>
  C8: when the first value decoded from the body is none of the six discriminators,
  \<open>unpackResponseBody\<close> succeeds at once, whatever follows in the body, and leaves the
  response and the store as they were.
\<close>

theorem unpackResponseBody_unknown_tag:
  assumes "decode E buf = Inr (rspType, rest)"
    and "rspType \<notin> VInt32 ` {RESPONSE_WITH_EXCEPTION E, RESPONSE_WITH_EXCEPTION_WITH_ATTACHMENTS E,
                               RESPONSE_VALUE E, RESPONSE_VALUE_WITH_ATTACHMENTS E,
                               RESPONSE_NULL_VALUE E, RESPONSE_NULL_VALUE_WITH_ATTACHMENTS E}"
  shows "unpackResponseBody E buf resp st = (Ok (), EnsureResponse resp, st)"
  using assms by (auto simp: unpackResponseBody_def Let_def)

theorem unpackResponseBody_unknown_tag_witness:
  "unpackResponseBody sample_env [0x49, 0, 0, 0, 9, 0x49, 0, 0, 0, 7, 0x4E]
       (BResponse (Some \<lparr>RspObj = VPtr TInt32 (Some 0), Exception = None, Attachments = Some []\<rparr>))
       (\<lambda>a. VInt32 0)
     = (Ok (), Some \<lparr>RspObj = VPtr TInt32 (Some 0), Exception = None, Attachments = Some []\<rparr>,
        (\<lambda>a. VInt32 0))"
proof -
  have d: "decode sample_env [0x49, 0, 0, 0, 9, 0x49, 0, 0, 0, 7, 0x4E]
             = Inr (VInt32 9, [0x49, 0, 0, 0, 7, 0x4E])"
    by (simp add: sample_env_def sample_decode_def)
  have n: "VInt32 9 \<notin> VInt32 ` {RESPONSE_WITH_EXCEPTION sample_env,
              RESPONSE_WITH_EXCEPTION_WITH_ATTACHMENTS sample_env,
              RESPONSE_VALUE sample_env, RESPONSE_VALUE_WITH_ATTACHMENTS sample_env,
              RESPONSE_NULL_VALUE sample_env, RESPONSE_NULL_VALUE_WITH_ATTACHMENTS sample_env}"
    by (simp add: sample_env_def)
  from unpackResponseBody_unknown_tag [OF d n] show ?thesis by simp
qed


text \<open>
  C10: in the branch of a value with attachments, \<open>unpackResponseBody\<close> stores the
  decoded attachments in the response before it coerces the value; when the coercion
  fails, the error is returned and the response keeps the new attachments.
\<close>

theorem unpackResponseBody_attachments_kept_on_error:
  assumes "decode E buf = Inr (VInt32 (RESPONSE_VALUE_WITH_ATTACHMENTS E), rest)"
    and "RESPONSE_VALUE_WITH_ATTACHMENTS E \<noteq> RESPONSE_WITH_EXCEPTION E"
    and "RESPONSE_VALUE_WITH_ATTACHMENTS E \<noteq> RESPONSE_WITH_EXCEPTION_WITH_ATTACHMENTS E"
    and "decode E rest = Inr (rsp, rest1)"
    and "decode E rest1 = Inr (attachments, rest2)"
    and "as_strmap attachments = Some atta"
    and "ReflectResponse st rsp (RspObj r) = (Err e, st1)"
  shows "unpackResponseBody E buf (BResponse (Some r)) st = (Err e, Some (r\<lparr>Attachments := atta\<rparr>), st1)"
  using assms by (simp add: unpackResponseBody_def decodeAttachments_def Let_def)

theorem unpackResponseBody_attachments_kept_on_error_witness:
  "unpackResponseBody sample_env [0x49, 0, 0, 0, 4, 0x49, 0, 0, 0, 7, 0x48, 0x5A, 0x4E]
       (BResponse (Some \<lparr>RspObj = VNil, Exception = None, Attachments = Some [(''dubbo'', ''2.0.2'')]\<rparr>))
       (\<lambda>a. VInt32 0)
     = (Err OutIsNil, Some \<lparr>RspObj = VNil, Exception = None, Attachments = Some []\<rparr>, (\<lambda>a. VInt32 0))"
proof -
  have d1: "decode sample_env [0x49, 0, 0, 0, 4, 0x49, 0, 0, 0, 7, 0x48, 0x5A, 0x4E]
             = Inr (VInt32 (RESPONSE_VALUE_WITH_ATTACHMENTS sample_env), [0x49, 0, 0, 0, 7, 0x48, 0x5A, 0x4E])"
    by (simp add: sample_env_def sample_decode_def)
  have n1: "RESPONSE_VALUE_WITH_ATTACHMENTS sample_env \<noteq> RESPONSE_WITH_EXCEPTION sample_env"
    by (simp add: sample_env_def)
  have n2: "RESPONSE_VALUE_WITH_ATTACHMENTS sample_env \<noteq> RESPONSE_WITH_EXCEPTION_WITH_ATTACHMENTS sample_env"
    by (simp add: sample_env_def)
  have d2: "decode sample_env [0x49, 0, 0, 0, 7, 0x48, 0x5A, 0x4E] = Inr (VInt32 7, [0x48, 0x5A, 0x4E])"
    by (simp add: sample_env_def sample_decode_def)
  have d3: "decode sample_env [0x48, 0x5A, 0x4E] = Inr (VMap TString TString (Some []), [0x4E])"
    by (simp add: sample_env_def sample_decode_def)
  have a: "as_strmap (VMap TString TString (Some [])) = Some (Some [])"
    by simp
  have r: "ReflectResponse (\<lambda>a. VInt32 0) (VInt32 7)
             (RspObj \<lparr>RspObj = VNil, Exception = None, Attachments = Some [(''dubbo'', ''2.0.2'')]\<rparr>)
           = (Err OutIsNil, (\<lambda>a. VInt32 0))"
    by (simp add: ReflectResponse_def)
  from unpackResponseBody_attachments_kept_on_error [OF d1 n1 n2 d2 d3 a r] show ?thesis by simp
qed



section \<open>The round trip of a value\<close>

lemma as_strmap_strmap_val: "as_strmap (strmap_val m) = Some m"
proof -
  have "map (\<lambda>(k, v). (string_of k, string_of v)) (map (\<lambda>(k, v). (VString k, VString v)) ps) = ps"
    for ps :: "(string \<times> string) list"
    by (induction ps) auto
  then show ?thesis
    by (cases m) (simp_all add: strmap_val_def)
qed

lemma packBody_value:
  assumes "ResponseStatus h = Response_OK" and "Exception r = None" and "RspObj r \<noteq> VNil"
  shows "packBody E c h (Some r) False =
     (if fst (isSupportResponseAttachment (float_overflow E)
                (LOWEST_VERSION_FOR_RESPONSE_ATTACHMENT E) c
                (attachment (Attachments r) (DUBBO_VERSION_KEY E)))
      then Ok (encode E (VInt32 (RESPONSE_VALUE_WITH_ATTACHMENTS E)) @ encode E (RspObj r)
               @ encode E (strmap_val (Attachments r)))
      else Ok (encode E (VInt32 (RESPONSE_VALUE E)) @ encode E (RspObj r)))"
  using assms by (simp add: packBody_def Let_def)

lemmas codec_eval = table_env_def table_encode_def table_decode_def sample_env_def sample_encode_def
  sample_decode_def be_bytes32_def strmap_val_def


text \<open>
  C1, as stated, has the round trip return the value for every header with status OK and
  every value that is not nil. With the decoder inverting the encoder, it does not for a
  heartbeat header, whose body is a lone null, which the parser ignores; for a nil slice
  held in the interface, which the coercion rejects with an error; and for an array, on
  which the coercion panics.
\<close>

theorem response_round_trip_fails:
  "packResponse sample_env Map.empty (sample_header\<lparr>Type := PackageHeartbeat\<rparr>)
       (BResponse (Some \<lparr>RspObj = VInt32 7, Exception = None, Attachments = Some []\<rparr>))
     = Ok [218, 187, 34, 20, 1, 2, 3, 4, 5, 6, 7, 8, 0, 0, 0, 2, 78, 78]
   \<and> unpackResponseBody sample_env
         (drop HEADER_LENGTH [218, 187, 34, 20, 1, 2, 3, 4, 5, 6, 7, 8, 0, 0, 0, 2, 78, 78])
         (BValue (VPtr TInt32 (Some 0))) (\<lambda>a. VInt32 0)
     = (Ok (), Some (NewResponse (VPtr TInt32 (Some 0)) None None), (\<lambda>a. VInt32 0))
   \<and> sample_decode (sample_encode (VInt32 7) @ [78]) = Inr (VInt32 7, [78])
   \<and> packResponse (table_env nil_tab) Map.empty sample_header
       (BResponse (Some \<lparr>RspObj = VSlice TInt32 None, Exception = None, Attachments = Some []\<rparr>))
     = Ok [218, 187, 2, 20, 1, 2, 3, 4, 5, 6, 7, 8, 0, 0, 0, 8, 73, 0, 0, 0, 1, 86, 1, 78]
   \<and> unpackResponseBody (table_env nil_tab)
         (drop HEADER_LENGTH [218, 187, 2, 20, 1, 2, 3, 4, 5, 6, 7, 8, 0, 0, 0, 8, 73, 0, 0, 0, 1, 86, 1, 78])
         (BValue (VPtr (TSlice TInt32) (Some 0))) (\<lambda>a. VSlice TInt32 (Some []))
     = (Err InIsNil, Some (NewResponse (VPtr (TSlice TInt32) (Some 0)) None None),
        (\<lambda>a. VSlice TInt32 (Some [])))
   \<and> packResponse (table_env nil_tab) Map.empty sample_header
       (BResponse (Some \<lparr>RspObj = VArray TInt32 [VInt32 1, VInt32 2], Exception = None,
                          Attachments = Some []\<rparr>))
     = Ok [218, 187, 2, 20, 1, 2, 3, 4, 5, 6, 7, 8, 0, 0, 0, 8, 73, 0, 0, 0, 1, 86, 2, 78]
   \<and> unpackResponseBody (table_env nil_tab)
         (drop HEADER_LENGTH [218, 187, 2, 20, 1, 2, 3, 4, 5, 6, 7, 8, 0, 0, 0, 8, 73, 0, 0, 0, 1, 86, 2, 78])
         (BValue (VPtr (TArray 2 TInt32) (Some 0))) (\<lambda>a. VArray TInt32 [VInt32 0, VInt32 0])
     = (Panic (IsNilOfKind KArray), Some (NewResponse (VPtr (TArray 2 TInt32) (Some 0)) None None),
        (\<lambda>a. VArray TInt32 [VInt32 0, VInt32 0]))"
  by (simp add: packResponse_def packBody_def codec_eval nil_tab_def sample_header_def
        isSupportResponseAttachment_def attachment_def
        HEADER_LENGTH_def SERIAL_MASK_def Response_OK_def DEFAULT_LEN_def
        PutUint64_def PutUint32_def be_bytes64_def encNull_def
        unpackResponseBody_def ReflectResponse_def EnsurePackValue_def ValueOf_def
        CopySlice_def IsNil_def NewResponse_def)


text \<open>
  C1, amended: for every header with status OK that is not a heartbeat, and every outcome
  with no exception and a copyable value (not nil, not an array, not a nil slice or map),
  the body of the frame that \<open>packResponse\<close> builds, parsed by \<open>unpackResponseBody\<close> into
  a destination that points to a variable of the type of the value, leaves the value in
  that variable and succeeds. The decoder is assumed to invert the encoder on the
  discriminator, the value and the attachments that the frame carries, and the
  discriminators of the value to differ from each other and from those of the
  exception.
\<close>

theorem response_value_round_trip:
  assumes tags: "distinct [RESPONSE_WITH_EXCEPTION E, RESPONSE_WITH_EXCEPTION_WITH_ATTACHMENTS E,
                           RESPONSE_VALUE E, RESPONSE_VALUE_WITH_ATTACHMENTS E]"
    and codec: "\<And>x rest. x \<in> {VInt32 (RESPONSE_VALUE E), VInt32 (RESPONSE_VALUE_WITH_ATTACHMENTS E),
                              RspObj r, strmap_val (Attachments r)}
                  \<Longrightarrow> decode E (encode E x @ rest) = Inr (x, rest)"
    and kind: "Type h \<noteq> PackageHeartbeat"
    and status: "ResponseStatus h = Response_OK"
    and exc: "Exception r = None"
    and val: "copyable (RspObj r)" "TypeOf (RspObj r) = Some T"
    and frame: "packResponse E c h (BResponse (Some r)) = Ok frame"
    and dest: "EnsureResponse resp = Some d" "RspObj d = VPtr T (Some a)"
  shows "\<exists>d'. unpackResponseBody E (drop HEADER_LENGTH frame) resp st
                 = (Ok (), Some d', st(a := RspObj r))
              \<and> RspObj d' = RspObj d \<and> Exception d' = Exception d"
proof -
  from val(1) have nn: "RspObj r \<noteq> VNil" by auto
  from tags have ne:
    "RESPONSE_VALUE E \<noteq> RESPONSE_WITH_EXCEPTION E"
    "RESPONSE_VALUE E \<noteq> RESPONSE_WITH_EXCEPTION_WITH_ATTACHMENTS E"
    "RESPONSE_VALUE E \<noteq> RESPONSE_VALUE_WITH_ATTACHMENTS E"
    "RESPONSE_VALUE_WITH_ATTACHMENTS E \<noteq> RESPONSE_WITH_EXCEPTION E"
    "RESPONSE_VALUE_WITH_ATTACHMENTS E \<noteq> RESPONSE_WITH_EXCEPTION_WITH_ATTACHMENTS E"
    by auto
  let ?atta = "fst (isSupportResponseAttachment (float_overflow E)
                (LOWEST_VERSION_FOR_RESPONSE_ATTACHMENT E) c
                (attachment (Attachments r) (DUBBO_VERSION_KEY E)))"
  from packResponse_Ok [OF frame] kind obtain encoded where
    b: "packBody E c h (Some r) False = Ok encoded"
    and f: "frame = [header_template E h ! 0, header_template E h ! 1,
                      header_template E h ! 2 OR (SerialID h AND SERIAL_MASK),
                      (if ResponseStatus h \<noteq> 0 then ResponseStatus h else header_template E h ! 3)]
                     @ be_bytes64 (ID h) @ be_bytes32 (word_of_nat (length encoded + 1))
                     @ encoded @ [BC_NULL E]"
    by auto
  have body: "drop HEADER_LENGTH frame = encoded @ [BC_NULL E]"
    unfolding f by (simp add: HEADER_LENGTH_def)
  have refl: "ReflectResponse st (RspObj r) (VPtr T (Some a)) = (Ok (), st(a := RspObj r))"
    using val(2,1) by (rule ReflectResponse_same_type)
  show ?thesis
  proof (cases ?atta)
    case True
    with b packBody_value [OF status exc nn, of E c]
    have e: "encoded = encode E (VInt32 (RESPONSE_VALUE_WITH_ATTACHMENTS E)) @ encode E (RspObj r)
               @ encode E (strmap_val (Attachments r))"
      by simp
    have d1: "decode E (drop HEADER_LENGTH frame)
                = Inr (VInt32 (RESPONSE_VALUE_WITH_ATTACHMENTS E),
                       encode E (RspObj r) @ encode E (strmap_val (Attachments r)) @ [BC_NULL E])"
      unfolding body e using codec [of "VInt32 (RESPONSE_VALUE_WITH_ATTACHMENTS E)"] by simp
    have d2: "decode E (encode E (RspObj r) @ encode E (strmap_val (Attachments r)) @ [BC_NULL E])
                = Inr (RspObj r, encode E (strmap_val (Attachments r)) @ [BC_NULL E])"
      using codec [of "RspObj r"] by simp
    have d3: "decode E (encode E (strmap_val (Attachments r)) @ [BC_NULL E])
                = Inr (strmap_val (Attachments r), [BC_NULL E])"
      using codec [of "strmap_val (Attachments r)"] by simp
    have "unpackResponseBody E (drop HEADER_LENGTH frame) resp st
            = (Ok (), Some (d\<lparr>Attachments := Attachments r\<rparr>), st(a := RspObj r))"
      using ne dest refl
      by (simp add: unpackResponseBody_def decodeAttachments_def Let_def d1 d2 d3 as_strmap_strmap_val)
    then show ?thesis by simp
  next
    case False
    with b packBody_value [OF status exc nn, of E c]
    have e: "encoded = encode E (VInt32 (RESPONSE_VALUE E)) @ encode E (RspObj r)"
      by simp
    have d1: "decode E (drop HEADER_LENGTH frame)
                = Inr (VInt32 (RESPONSE_VALUE E), encode E (RspObj r) @ [BC_NULL E])"
      unfolding body e using codec [of "VInt32 (RESPONSE_VALUE E)"] by simp
    have d2: "decode E (encode E (RspObj r) @ [BC_NULL E]) = Inr (RspObj r, [BC_NULL E])"
      using codec [of "RspObj r"] by simp
    have "unpackResponseBody E (drop HEADER_LENGTH frame) resp st
            = (Ok (), Some d, st(a := RspObj r))"
      using ne dest refl
      by (simp add: unpackResponseBody_def Let_def d1 d2)
    then show ?thesis by simp
  qed
qed

theorem response_value_round_trip_witness:
  "packResponse (table_env demo_tab) Map.empty sample_header
       (BResponse (Some \<lparr>RspObj = VSlice TInt32 (Some [VInt32 1, VInt32 2]), Exception = None,
                          Attachments = Some [(''dubbo'', ''2.7.1'')]\<rparr>))
     = Ok [218, 187, 2, 20, 1, 2, 3, 4, 5, 6, 7, 8, 0, 0, 0, 10, 73, 0, 0, 0, 4, 86, 1, 86, 2, 78]
   \<and> (\<exists>d'. unpackResponseBody (table_env demo_tab)
               (drop HEADER_LENGTH
                  [218, 187, 2, 20, 1, 2, 3, 4, 5, 6, 7, 8, 0, 0, 0, 10, 73, 0, 0, 0, 4, 86, 1, 86, 2, 78])
               (BValue (VPtr (TSlice TInt32) (Some 0))) (\<lambda>a. VSlice TInt32 None)
             = (Ok (), Some d',
                (\<lambda>a. VSlice TInt32 None)(0 := VSlice TInt32 (Some [VInt32 1, VInt32 2]))))"
proof -
  let ?E = "table_env demo_tab"
  let ?r = "\<lparr>RspObj = VSlice TInt32 (Some [VInt32 1, VInt32 2]), Exception = None,
            Attachments = Some [(''dubbo'', ''2.7.1'')]\<rparr>"
  have tags: "distinct [RESPONSE_WITH_EXCEPTION ?E, RESPONSE_WITH_EXCEPTION_WITH_ATTACHMENTS ?E,
                        RESPONSE_VALUE ?E, RESPONSE_VALUE_WITH_ATTACHMENTS ?E]"
    by (simp add: table_env_def sample_env_def)
  have codec: "\<And>x rest. x \<in> {VInt32 (RESPONSE_VALUE ?E), VInt32 (RESPONSE_VALUE_WITH_ATTACHMENTS ?E),
                              RspObj ?r, strmap_val (Attachments ?r)}
                  \<Longrightarrow> decode ?E (encode ?E x @ rest) = Inr (x, rest)"
    by (auto simp: codec_eval demo_tab_def)
  have kind: "Type sample_header \<noteq> PackageHeartbeat" by (simp add: sample_header_def)
  have status: "ResponseStatus sample_header = Response_OK"
    by (simp add: sample_header_def Response_OK_def)
  have exc: "Exception ?r = None" by simp
  have val: "copyable (RspObj ?r)" "TypeOf (RspObj ?r) = Some (TSlice TInt32)" by simp_all
  have frame: "packResponse ?E Map.empty sample_header (BResponse (Some ?r))
     = Ok [218, 187, 2, 20, 1, 2, 3, 4, 5, 6, 7, 8, 0, 0, 0, 10, 73, 0, 0, 0, 4, 86, 1, 86, 2, 78]"
    by (simp add: packResponse_def packBody_def codec_eval demo_tab_def sample_header_def
        isSupportResponseAttachment_def attachment_def version2Int_def Atoi_def is_digit_def
        Pow10_int_def HEADER_LENGTH_def SERIAL_MASK_def Response_OK_def DEFAULT_LEN_def
        PutUint64_def PutUint32_def be_bytes64_def encNull_def)
  have dest: "EnsureResponse (BValue (VPtr (TSlice TInt32) (Some 0)))
                = Some (NewResponse (VPtr (TSlice TInt32) (Some 0)) None None)"
    "RspObj (NewResponse (VPtr (TSlice TInt32) (Some 0)) None None) = VPtr (TSlice TInt32) (Some 0)"
    by (simp_all add: NewResponse_def)
  from response_value_round_trip [OF tags codec kind status exc val frame dest, of "\<lambda>a. VSlice TInt32 None"]
  show ?thesis using frame by auto
qed



end
